theory Spec2Isabelle
  imports Complex_Main
begin

section \<open>The integrity monitor (student/exam-integrity.js, version 1.2.0)\<close>

text \<open>
  The file holds two revisions of \<^verbatim>\<open>IntegrityModule\<close>; the later one (1.2.0, with the
  \<^verbatim>\<open>isReentering\<close> and \<^verbatim>\<open>isSubmitting\<close> flags and the 1000 ms debounce) is the one
  embedded here. The module is a singleton whose private variables \<^verbatim>\<open>_config\<close>,
  \<^verbatim>\<open>_state\<close>, \<^verbatim>\<open>_callbacks\<close> and \<^verbatim>\<open>_handlers\<close> become the fields of one record that
  every operation takes and returns. \<^verbatim>\<open>Date.now()\<close> is an argument of each operation.
  What the module does to the outside (alerts, callback invocations, console errors, the
  timer and the fullscreen request) is appended to the field \<open>effects\<close>.
\<close>

datatype violation_type = TabSwitch | WindowBlur | FullscreenExit

record violation_entry =
  entry_type :: violation_type
  timestamp :: int

text \<open>How a call of a subscriber ended: it returned, or it threw.\<close>

datatype completion = Returned | Threw

type_synonym violation_callback = "violation_entry \<Rightarrow> int \<Rightarrow> int \<Rightarrow> completion"

type_synonym auto_submit_callback = "unit \<Rightarrow> completion"

datatype notice = Terminated violation_type | Warning violation_type int int

datatype effect =
    Alert notice
  | ViolationNotified nat
  | AutoSubmitNotified nat
  | ErrorLogged nat
  | ReentryScheduled int
  | FullscreenRequested

record config =
  containerHasRfs :: bool
  autoSubmitOnViolation :: bool
  violationThreshold :: int
  enableWarnings :: bool
  strictMode :: bool

record config_patch =
  set_containerHasRfs :: "bool option"
  set_autoSubmitOnViolation :: "bool option"
  set_violationThreshold :: "int option"
  set_enableWarnings :: "bool option"
  set_strictMode :: "bool option"

record monitor =
  cfg :: config
  violations :: int
  violationLog :: "violation_entry list"
  isActive :: bool
  lastViolationTime :: int
  isReentering :: bool
  isSubmitting :: bool
  onViolation :: "violation_callback list"
  onAutoSubmit :: "auto_submit_callback list"
  listening :: bool
  effects :: "effect list"

text \<open>The module as it is when the script has loaded and \<^verbatim>\<open>init\<close> has not run.\<close>

definition defaultConfig :: config where
  "defaultConfig =
     \<lparr>containerHasRfs = True, autoSubmitOnViolation = False, violationThreshold = 3,
      enableWarnings = True, strictMode = False\<rparr>"

definition loadedModule :: monitor where
  "loadedModule =
     \<lparr>cfg = defaultConfig, violations = 0, violationLog = [], isActive = False,
      lastViolationTime = 0, isReentering = False, isSubmitting = False,
      onViolation = [], onAutoSubmit = [], listening = False, effects = []\<rparr>"

text \<open>
  \<^verbatim>\<open>_showWarning\<close>: the three cases of the switch build the same two messages, the
  termination notice when \<open>count \<ge> max\<close> and the numbered warning with the remaining
  tolerance otherwise; the alert is kept as the notice it shows.
\<close>

definition showWarning :: "violation_type \<Rightarrow> int \<Rightarrow> int \<Rightarrow> monitor \<Rightarrow> monitor" where
  "showWarning ty count mx m =
     (if \<not> enableWarnings (cfg m) then m
      else m\<lparr>effects := effects m @
             [Alert (if count \<ge> mx then Terminated ty else Warning ty count (mx - count))]\<rparr>)"

text \<open>
  \<^verbatim>\<open>_enforceFullscreen\<close>, up to the \<^verbatim>\<open>setTimeout\<close>; the timer's body is
  \<open>reentryTimeout\<close> and the two continuations of the request are \<open>requestSettled\<close>.
\<close>

definition enforceFullscreen :: "monitor \<Rightarrow> monitor" where
  "enforceFullscreen m =
     (if isReentering m \<or> isSubmitting m then m
      else m\<lparr>isReentering := True, effects := effects m @ [ReentryScheduled 200]\<rparr>)"

definition reentryTimeout :: "monitor \<Rightarrow> monitor" where
  "reentryTimeout m =
     (if isActive m \<and> \<not> isSubmitting m then
        (if containerHasRfs (cfg m) then m\<lparr>effects := effects m @ [FullscreenRequested]\<rparr>
         else m\<lparr>isReentering := False\<rparr>)
      else m\<lparr>isReentering := False\<rparr>)"

definition requestSettled :: "bool \<Rightarrow> monitor \<Rightarrow> monitor" where
  "requestSettled succeeded m = m\<lparr>isReentering := False\<rparr>"

text \<open>
  \<^verbatim>\<open>_callbacks.onViolation.forEach(cb => cb(...))\<close>: no handler around the call, so the
  first subscriber that throws ends the loop and the exception leaves \<^verbatim>\<open>forEach\<close>.
\<close>

fun forEachViolation ::
  "nat \<Rightarrow> violation_callback list \<Rightarrow> violation_entry \<Rightarrow> int \<Rightarrow> int \<Rightarrow> effect list
     \<Rightarrow> completion \<times> effect list" where
  "forEachViolation i [] e c t fx = (Returned, fx)"
| "forEachViolation i (cb # cbs) e c t fx =
     (case cb e c t of
        Threw \<Rightarrow> (Threw, fx @ [ViolationNotified i])
      | Returned \<Rightarrow> forEachViolation (Suc i) cbs e c t (fx @ [ViolationNotified i]))"

text \<open>
  The loop of \<^verbatim>\<open>_triggerAutoSubmit\<close>: each call sits in its own \<^verbatim>\<open>try\<close>, the
  \<^verbatim>\<open>catch\<close> logs the error and the loop goes on.
\<close>

fun forEachAutoSubmit :: "nat \<Rightarrow> auto_submit_callback list \<Rightarrow> effect list \<Rightarrow> effect list" where
  "forEachAutoSubmit i [] fx = fx"
| "forEachAutoSubmit i (cb # cbs) fx =
     forEachAutoSubmit (Suc i) cbs
       (case cb () of
          Returned \<Rightarrow> fx @ [AutoSubmitNotified i]
        | Threw \<Rightarrow> fx @ [AutoSubmitNotified i, ErrorLogged i])"

definition triggerAutoSubmit :: "monitor \<Rightarrow> monitor" where
  "triggerAutoSubmit m =
     (if \<not> isActive m \<or> isSubmitting m then m
      else m\<lparr>isSubmitting := True, isActive := False,
             effects := forEachAutoSubmit 0 (onAutoSubmit m) (effects m)\<rparr>)"

text \<open>
  \<^verbatim>\<open>_logViolation(type)\<close>. The result pairs the way the call ended with the module
  afterwards: when a violation subscriber throws, the state written before the
  notification stays and the rest of the function does not run.
\<close>

definition logViolation :: "violation_type \<Rightarrow> int \<Rightarrow> monitor \<Rightarrow> completion \<times> monitor" where
  "logViolation ty now m =
     (if \<not> isActive m \<or> isSubmitting m then (Returned, m)
      else if isReentering m \<and> ty = FullscreenExit then (Returned, m)
      else if now - lastViolationTime m < 1000 then (Returned, m)
      else
        let violationEntry = \<lparr>entry_type = ty, timestamp = now\<rparr>;
            m1 = m\<lparr>lastViolationTime := now, violations := violations m + 1,
                   violationLog := violationLog m @ [violationEntry]\<rparr>;
            thresholdExceeded = (violations m1 \<ge> violationThreshold (cfg m1));
            m2 = showWarning ty (violations m1) (violationThreshold (cfg m1)) m1;
            notified = forEachViolation 0 (onViolation m2) violationEntry (violations m2)
                         (violationThreshold (cfg m2)) (effects m2);
            m3 = m2\<lparr>effects := snd notified\<rparr>
        in if fst notified = Threw then (Threw, m3)
           else
             let m4 = (if ty = FullscreenExit \<and> \<not> thresholdExceeded
                       then enforceFullscreen m3 else m3);
                 m5 = (if autoSubmitOnViolation (cfg m4) \<and> thresholdExceeded
                       then triggerAutoSubmit m4 else m4)
             in (Returned, m5))"

text \<open>
  The three listeners of \<^verbatim>\<open>_initListeners\<close>. The argument of the first two is
  \<^verbatim>\<open>document.hidden\<close>; the argument of the third says whether some element is in
  fullscreen when the event fires.
\<close>

definition visibilityChange :: "bool \<Rightarrow> int \<Rightarrow> monitor \<Rightarrow> completion \<times> monitor" where
  "visibilityChange hidden now m =
     (if hidden \<and> \<not> isSubmitting m then logViolation TabSwitch now m else (Returned, m))"

definition blur :: "bool \<Rightarrow> int \<Rightarrow> monitor \<Rightarrow> completion \<times> monitor" where
  "blur hidden now m =
     (if \<not> hidden \<and> \<not> isSubmitting m then logViolation WindowBlur now m else (Returned, m))"

definition fullscreenChange :: "bool \<Rightarrow> int \<Rightarrow> monitor \<Rightarrow> completion \<times> monitor" where
  "fullscreenChange isInFullscreen now m =
     (if \<not> isInFullscreen \<and> isActive m \<and> \<not> isReentering m \<and> \<not> isSubmitting m
      then logViolation FullscreenExit now m
      else if isInFullscreen \<and> isReentering m then (Returned, m\<lparr>isReentering := False\<rparr>)
      else (Returned, m))"

text \<open>The public API.\<close>

definition destroy :: "monitor \<Rightarrow> monitor" where
  "destroy m = m\<lparr>isActive := False, listening := False, onViolation := [], onAutoSubmit := []\<rparr>"

definition mergeConfig :: "config \<Rightarrow> config_patch \<Rightarrow> config" where
  "mergeConfig c p =
     \<lparr>containerHasRfs = (case set_containerHasRfs p of None \<Rightarrow> containerHasRfs c | Some v \<Rightarrow> v),
      autoSubmitOnViolation =
        (case set_autoSubmitOnViolation p of None \<Rightarrow> autoSubmitOnViolation c | Some v \<Rightarrow> v),
      violationThreshold =
        (case set_violationThreshold p of None \<Rightarrow> violationThreshold c | Some v \<Rightarrow> v),
      enableWarnings = (case set_enableWarnings p of None \<Rightarrow> enableWarnings c | Some v \<Rightarrow> v),
      strictMode = (case set_strictMode p of None \<Rightarrow> strictMode c | Some v \<Rightarrow> v)\<rparr>"

definition init :: "config_patch \<Rightarrow> monitor \<Rightarrow> monitor" where
  "init p m =
     (let m1 = destroy (m\<lparr>cfg := mergeConfig (cfg m) p\<rparr>)
      in m1\<lparr>violations := 0, violationLog := [], isActive := True, lastViolationTime := 0,
            isReentering := False, isSubmitting := False, listening := True\<rparr>)"

definition getViolations :: "monitor \<Rightarrow> int \<times> violation_entry list" where
  "getViolations m = (violations m, violationLog m)"

definition registerOnViolation :: "violation_callback \<Rightarrow> monitor \<Rightarrow> monitor" where
  "registerOnViolation cb m = m\<lparr>onViolation := onViolation m @ [cb]\<rparr>"

definition registerOnAutoSubmit :: "auto_submit_callback \<Rightarrow> monitor \<Rightarrow> monitor" where
  "registerOnAutoSubmit cb m = m\<lparr>onAutoSubmit := onAutoSubmit m @ [cb]\<rparr>"

definition setStrictMode :: "bool \<Rightarrow> monitor \<Rightarrow> monitor" where
  "setStrictMode isStrict m = m\<lparr>cfg := (cfg m)\<lparr>strictMode := isStrict\<rparr>\<rparr>"

definition triggerViolation :: "violation_type \<Rightarrow> int \<Rightarrow> monitor \<Rightarrow> completion \<times> monitor" where
  "triggerViolation ty now m = logViolation ty now m"

text \<open>
  What can happen to a module between two calls of \<^verbatim>\<open>init\<close>: a raw signal of the
  host (delivered only while the listeners are attached), the re-entry timer firing, the
  fullscreen request settling, and the calls of the public API.
\<close>

datatype signal = VisibilityChange bool | Blur bool | FullscreenChange bool

datatype event =
    Signal signal
  | ReentryTimeout
  | RequestSettled bool
  | TriggerViolation violation_type
  | OnViolation violation_callback
  | OnAutoSubmit auto_submit_callback
  | SetStrictMode bool
  | Destroy

fun deliver :: "signal \<Rightarrow> int \<Rightarrow> monitor \<Rightarrow> completion \<times> monitor" where
  "deliver (VisibilityChange hidden) now m =
     (if listening m then visibilityChange hidden now m else (Returned, m))"
| "deliver (Blur hidden) now m =
     (if listening m then blur hidden now m else (Returned, m))"
| "deliver (FullscreenChange isInFullscreen) now m =
     (if listening m then fullscreenChange isInFullscreen now m else (Returned, m))"

fun step :: "event \<Rightarrow> int \<Rightarrow> monitor \<Rightarrow> completion \<times> monitor" where
  "step (Signal s) now m = deliver s now m"
| "step ReentryTimeout now m = (Returned, reentryTimeout m)"
| "step (RequestSettled ok) now m = (Returned, requestSettled ok m)"
| "step (TriggerViolation ty) now m = triggerViolation ty now m"
| "step (OnViolation cb) now m = (Returned, registerOnViolation cb m)"
| "step (OnAutoSubmit cb) now m = (Returned, registerOnAutoSubmit cb m)"
| "step (SetStrictMode b) now m = (Returned, setStrictMode b m)"
| "step Destroy now m = (Returned, destroy m)"

text \<open>
  A run handles the events in order, each at its own clock reading. An exception that
  leaves a handler is reported by the host and the next event is handled in the state the
  handler left.
\<close>

fun run :: "(event \<times> int) list \<Rightarrow> monitor \<Rightarrow> monitor" where
  "run [] m = m"
| "run ((e, now) # es) m = run es (snd (step e now m))"


section \<open>Values of the host language\<close>

text \<open>
  \<^verbatim>\<open>Number.prototype.toString\<close> on an integer, \<^verbatim>\<open>String.prototype.padStart\<close>,
  \<^verbatim>\<open>charAt\<close> (the empty string out of range), \<^verbatim>\<open>trim\<close> (on the ASCII white space
  and line terminators; a \<open>char\<close> is a byte, the other Unicode spaces are not
  represented).
\<close>

definition digitChar :: "nat \<Rightarrow> char" where
  "digitChar d = ''0123456789'' ! d"

fun digitsOf :: "nat \<Rightarrow> string" where
  "digitsOf n = (if n < 10 then [digitChar n] else digitsOf (n div 10) @ [digitChar (n mod 10)])"

definition toString :: "int \<Rightarrow> string" where
  "toString i = (if i < 0 then CHR ''-'' # digitsOf (nat (- i)) else digitsOf (nat i))"

definition padStart :: "nat \<Rightarrow> char \<Rightarrow> string \<Rightarrow> string" where
  "padStart n c s = replicate (n - length s) c @ s"

definition charAt :: "string \<Rightarrow> int \<Rightarrow> string" where
  "charAt s i = (if 0 \<le> i \<and> nat i < length s then [s ! nat i] else [])"

definition isWhiteSpace :: "char \<Rightarrow> bool" where
  "isWhiteSpace c \<longleftrightarrow> c \<in> set [CHR '' '', CHR 0x09, CHR 0x0A, CHR 0x0B, CHR 0x0C, CHR 0x0D]"

definition trim :: "string \<Rightarrow> string" where
  "trim s = rev (dropWhile isWhiteSpace (rev (dropWhile isWhiteSpace s)))"

text \<open>
  A Number is an IEEE 754 double: a finite value, kept as the rational it denotes, an
  infinity or \<^verbatim>\<open>NaN\<close> (the sign of zero is not represented: it shows only in a
  division by zero, and no divisor below is a computed zero). \<open>toDouble\<close> rounds a rational to the nearest double,
  ties to the even significand: a positive \<open>x\<close> with \<open>2\<^sup>e \<le> x < 2\<^sup>e\<^sup>+\<^sup>1\<close> is rounded to
  a multiple of \<open>2\<^sup>e\<^sup>-\<^sup>5\<^sup>2\<close> (of \<open>2\<^sup>-\<^sup>1\<^sup>0\<^sup>7\<^sup>4\<close> below the normal range), and a result of
  \<open>2\<^sup>1\<^sup>0\<^sup>2\<^sup>4\<close> or more is an infinity. \<open>bitLength n\<close> is the number of binary digits of
  \<open>n\<close> and \<open>exponentOf x\<close> the \<open>e\<close> above. Division and multiplication round the exact
  result; \<^verbatim>\<open>Math.round\<close> (halves go up) and \<^verbatim>\<open>Math.ceil\<close> are exact on the double
  they are given; \<open>numGe\<close> is \<^verbatim>\<open>>=\<close>. A counter held as an integer enters these
  operations through \<open>toNumber\<close>.
\<close>

datatype number = Finite rat | PosInfinity | NegInfinity | NaN

fun bitLength :: "nat \<Rightarrow> nat" where
  "bitLength n = (if n = 0 then 0 else Suc (bitLength (n div 2)))"

definition exponentOf :: "rat \<Rightarrow> int" where
  "exponentOf x =
     (if 1 \<le> x then int (bitLength (nat \<lfloor>x\<rfloor>)) - 1
      else (let j = int (bitLength (nat \<lfloor>1 / x\<rfloor>)) - 1
            in if x * 2 powi j = 1 then - j else - j - 1))"

definition roundHalfEven :: "rat \<Rightarrow> int" where
  "roundHalfEven z =
     (let f = \<lfloor>z\<rfloor>; r = z - of_int f
      in if r < 1 / 2 then f else if 1 / 2 < r then f + 1 else if even f then f else f + 1)"

definition roundPositive :: "rat \<Rightarrow> number" where
  "roundPositive x =
     (let e = max (exponentOf x) (- 1022);
          q = 2 powi (e - 52);
          y = of_int (roundHalfEven (x / q)) * q
      in if 2 powi 1024 \<le> y then PosInfinity else Finite y)"

fun negate :: "number \<Rightarrow> number" where
  "negate (Finite x) = Finite (- x)"
| "negate PosInfinity = NegInfinity"
| "negate NegInfinity = PosInfinity"
| "negate NaN = NaN"

definition toDouble :: "rat \<Rightarrow> number" where
  "toDouble x =
     (if x = 0 then Finite 0 else if 0 < x then roundPositive x else negate (roundPositive (- x)))"

definition toNumber :: "int \<Rightarrow> number" where
  "toNumber i = toDouble (of_int i)"

fun numDiv :: "number \<Rightarrow> number \<Rightarrow> number" where
  "numDiv NaN b = NaN"
| "numDiv a NaN = NaN"
| "numDiv (Finite a) (Finite b) =
     (if b = 0 then (if a = 0 then NaN else if 0 < a then PosInfinity else NegInfinity)
      else toDouble (a / b))"
| "numDiv (Finite a) b = Finite 0"
| "numDiv PosInfinity (Finite b) = (if 0 \<le> b then PosInfinity else NegInfinity)"
| "numDiv NegInfinity (Finite b) = (if 0 \<le> b then NegInfinity else PosInfinity)"
| "numDiv a b = NaN"

fun numMul :: "number \<Rightarrow> number \<Rightarrow> number" where
  "numMul NaN b = NaN"
| "numMul a NaN = NaN"
| "numMul (Finite a) (Finite b) = toDouble (a * b)"
| "numMul (Finite a) PosInfinity =
     (if a = 0 then NaN else if 0 < a then PosInfinity else NegInfinity)"
| "numMul (Finite a) NegInfinity =
     (if a = 0 then NaN else if 0 < a then NegInfinity else PosInfinity)"
| "numMul PosInfinity (Finite b) =
     (if b = 0 then NaN else if 0 < b then PosInfinity else NegInfinity)"
| "numMul NegInfinity (Finite b) =
     (if b = 0 then NaN else if 0 < b then NegInfinity else PosInfinity)"
| "numMul PosInfinity PosInfinity = PosInfinity"
| "numMul NegInfinity NegInfinity = PosInfinity"
| "numMul a b = NegInfinity"

fun mathRound :: "number \<Rightarrow> number" where
  "mathRound (Finite x) = Finite (of_int \<lfloor>x + 1 / 2\<rfloor>)"
| "mathRound a = a"

fun mathCeil :: "number \<Rightarrow> number" where
  "mathCeil (Finite x) = Finite (of_int \<lceil>x\<rceil>)"
| "mathCeil a = a"

fun numGe :: "number \<Rightarrow> number \<Rightarrow> bool" where
  "numGe NaN b = False"
| "numGe a NaN = False"
| "numGe (Finite a) (Finite b) = (b \<le> a)"
| "numGe PosInfinity b = True"
| "numGe a NegInfinity = True"
| "numGe a b = False"

declare bitLength.simps [simp del]

text \<open>
  A parsed JSON document, with property access (\<open>None\<close> is \<^verbatim>\<open>undefined\<close>; in an
  object with a repeated key the last one counts) and truthiness.
\<close>

datatype json =
    JNull
  | JBool bool
  | JNum int
  | JStr string
  | JArr "json list"
  | JObj "(string \<times> json) list"

fun getProp :: "json option \<Rightarrow> string \<Rightarrow> json option" where
  "getProp (Some (JObj kvs)) k = map_of (rev kvs) k"
| "getProp _ k = None"

fun truthy :: "json option \<Rightarrow> bool" where
  "truthy None = False"
| "truthy (Some JNull) = False"
| "truthy (Some (JBool b)) = b"
| "truthy (Some (JNum n)) = (n \<noteq> 0)"
| "truthy (Some (JStr s)) = (s \<noteq> [])"
| "truthy (Some (JArr xs)) = True"
| "truthy (Some (JObj kvs)) = True"

section \<open>The exam, the session and the result (student/script.js)\<close>

text \<open>
  The exam definition, with the fields of \<^verbatim>\<open>metadata\<close> (title, subject, term, academic
  year) and of \<^verbatim>\<open>settings\<close> (pass mark, show results) that \<^verbatim>\<open>submitExam\<close> reads as
  fields of the exam itself; an unset \<^verbatim>\<open>marks\<close> or \<^verbatim>\<open>passMark\<close> is \<open>None\<close>. The
  \<^verbatim>\<open>state\<close> object is the record \<open>session\<close>; \<open>timerId\<close> holds the running interval
  and is \<open>None\<close> once \<^verbatim>\<open>clearInterval\<close> has stopped it. Instants (\<^verbatim>\<open>toISOString()\<close>
  renderings in the source) are kept as the clock reading in milliseconds. The result
  object is the record \<open>result\<close>, its nested blocks flattened. \<open>answers\<close> holds the
  own properties of the \<^verbatim>\<open>state.answers\<close> object. What \<^verbatim>\<open>submitExam\<close> takes as the
  selected option of a question is a \<open>selection\<close>: \<^verbatim>\<open>null\<close>, an option key, or a member
  inherited from \<^verbatim>\<open>Object.prototype\<close>, kept by its name.
\<close>

record question =
  questionId :: string
  questionText :: string
  options :: "(string \<times> string) list"
  correctAnswer :: string
  marks :: "int option"

record exam =
  examId :: string
  examTitle :: string
  examSubject :: string
  examTerm :: string
  academicYear :: string
  passMark :: "int option"
  showResults :: bool
  questions :: "question list"

record student =
  name :: string
  seatNumber :: string
  className :: string
  subject :: string

record timing =
  startedAt :: "int option"
  submittedAt :: "int option"
  durationAllowed :: int

record session =
  student :: student
  exam :: "exam option"
  currentQIndex :: int
  answers :: "string \<rightharpoonup> string"
  timeLeft :: int
  timerId :: "nat option"
  isSubmitted :: bool
  timing :: timing

datatype selection = NoSelection | Chosen string | Inherited string

record answer_outcome =
  answeredQuestionId :: string
  selectedOption :: selection
  isCorrect :: bool
  marksAwarded :: int

record scoring =
  totalQuestions :: int
  attemptedQuestions :: int
  correctAnswers :: int
  wrongAnswers :: int
  unansweredQuestions :: int
  totalMarks :: int
  obtainedMarks :: int
  percentage :: number
  passed :: bool

record result =
  submissionId :: string
  version :: string
  fullName :: string
  registrationNumber :: string
  studentClass :: string
  resultExamId :: string
  resultTitle :: string
  resultSubject :: string
  resultTerm :: string
  resultAcademicYear :: string
  answersArray :: "answer_outcome list"
  resultScoring :: scoring
  resultStartedAt :: "int option"
  resultSubmittedAt :: "int option"
  resultDurationAllowed :: int
  durationUsed :: number
  submissionType :: string
  clientTimestamp :: int
  integrityViolations :: int
  integrityLog :: "violation_entry list"

section \<open>Submission ids and delivery (student/sheets-submitter.js)\<close>

text \<open>
  \<^verbatim>\<open>new Date()\<close> gives the three readings \<^verbatim>\<open>getFullYear()\<close>, \<^verbatim>\<open>getMonth()\<close>
  (from 0) and \<^verbatim>\<open>getDate()\<close>; the \<open>i\<close>-th call of \<^verbatim>\<open>Math.random()\<close> gives
  \<open>random i\<close>.
\<close>

record date =
  getFullYear :: int
  getMonth :: int
  getDate :: int

definition chars :: string where
  "chars = ''ABCDEFGHIJKLMNOPQRSTUVWXYZ0123456789''"

function randomLoop :: "(nat \<Rightarrow> rat) \<Rightarrow> nat \<Rightarrow> string \<Rightarrow> string" where
  "randomLoop random i randomPart =
     (if i < 6
      then randomLoop random (Suc i)
             (randomPart @ charAt chars \<lfloor>random i * of_nat (length chars)\<rfloor>)
      else randomPart)"
  by pat_completeness auto
termination
  by (relation "measure (\<lambda>(random, i, randomPart). 6 - i)") auto

definition generateSubmissionId :: "date \<Rightarrow> (nat \<Rightarrow> rat) \<Rightarrow> string" where
  "generateSubmissionId now random =
     (let datePart = toString (getFullYear now)
                     @ padStart 2 CHR ''0'' (toString (getMonth now + 1))
                     @ padStart 2 CHR ''0'' (toString (getDate now));
          randomPart = randomLoop random 0 []
      in ''SUB-'' @ datePart @ ''-'' @ randomPart)"

record submitter_config =
  webhookUrl :: string
  maxRetries :: int
  retryDelay :: int

definition unconfigured :: submitter_config where
  "unconfigured = \<lparr>webhookUrl = [], maxRetries = 3, retryDelay = 2000\<rparr>"

definition configure :: "string option \<Rightarrow> int option \<Rightarrow> submitter_config \<Rightarrow> submitter_config" where
  "configure url retries c =
     (let c1 = (case url of Some u \<Rightarrow> (if u \<noteq> [] then c\<lparr>webhookUrl := u\<rparr> else c) | None \<Rightarrow> c)
      in case retries of Some r \<Rightarrow> c1\<lparr>maxRetries := r\<rparr> | None \<Rightarrow> c1)"

text \<open>
  One attempt is the body of the \<^verbatim>\<open>try\<close>: \<^verbatim>\<open>JSON.stringify\<close> and the awaited
  \<^verbatim>\<open>fetch\<close>. It ends without an error, or with a thrown value whose \<^verbatim>\<open>message\<close>
  may be missing. The host settles every request.
\<close>

datatype attempt_outcome = NoError | Failed "string option"

record outcome =
  success :: bool
  outcomeSubmissionId :: string
  outcomeTimestamp :: int
  error :: "string option"

datatype 'a promise = Resolved 'a | Rejected string

datatype wire = Fetch int | Delay int

text \<open>
  The loop of \<^verbatim>\<open>submit\<close>, from \<open>attempt\<close> on: \<open>Inl\<close> when an attempt ended without
  an error, \<open>Inr lastError\<close> when the bound is used up; with the requests sent and the
  delays waited.
\<close>

function attemptLoop ::
  "submitter_config \<Rightarrow> (int \<Rightarrow> attempt_outcome) \<Rightarrow> int \<Rightarrow> string option option \<Rightarrow> wire list
     \<Rightarrow> (unit + string option option) \<times> wire list" where
  "attemptLoop c fetch attempt lastError sent =
     (if attempt \<le> maxRetries c then
        (case fetch attempt of
           NoError \<Rightarrow> (Inl (), sent @ [Fetch attempt])
         | Failed err \<Rightarrow>
             attemptLoop c fetch (attempt + 1) (Some err)
               (if attempt < maxRetries c
                then sent @ [Fetch attempt, Delay (retryDelay c)]
                else sent @ [Fetch attempt]))
      else (Inr lastError, sent))"
  by pat_completeness auto
termination
  by (relation "measure (\<lambda>(c, fetch, attempt, lastError, sent). nat (maxRetries c + 1 - attempt))")
     auto

definition errorMessage :: "string option option \<Rightarrow> string" where
  "errorMessage lastError =
     (case lastError of
        Some (Some msg) \<Rightarrow> (if msg \<noteq> [] then msg else ''Unknown error'')
      | _ \<Rightarrow> ''Unknown error'')"

definition submit ::
  "submitter_config \<Rightarrow> (int \<Rightarrow> attempt_outcome) \<Rightarrow> int \<Rightarrow> result \<Rightarrow> outcome promise \<times> wire list" where
  "submit c fetch now resultData =
     (if webhookUrl c = [] then
        (Resolved \<lparr>success = False, outcomeSubmissionId = submissionId resultData,
                   outcomeTimestamp = now,
                   error = Some ''Webhook URL not configured. Results saved locally only.''\<rparr>, [])
      else
        (case attemptLoop c fetch 1 None [] of
           (Inl u, sent) \<Rightarrow>
             (Resolved \<lparr>success = True, outcomeSubmissionId = submissionId resultData,
                        outcomeTimestamp = now, error = None\<rparr>, sent)
         | (Inr lastError, sent) \<Rightarrow>
             (Resolved \<lparr>success = False, outcomeSubmissionId = submissionId resultData,
                        outcomeTimestamp = now,
                        error = Some (''Network error after '' @ toString (maxRetries c)
                                      @ '' attempts: '' @ errorMessage lastError)\<rparr>, sent)))"


declare digitsOf.simps [simp del] randomLoop.simps [simp del] attemptLoop.simps [simp del]

section \<open>Persistence and submission (student/script.js)\<close>

text \<open>
  The page: the \<^verbatim>\<open>state\<close> object, \<^verbatim>\<open>localStorage\<close>, the two modules (\<open>None\<close>
  when the script is not loaded, the case of \<^verbatim>\<open>typeof X === 'undefined'\<close>), the
  payload bound to the resume button while the resume alert is shown, and two logs: every
  result object built and every result handed to \<^verbatim>\<open>SheetsSubmitter.submit\<close>.
\<close>

record page =
  state :: session
  localStorage :: "string \<rightharpoonup> string"
  integrityModule :: "monitor option"
  sheetsSubmitter :: "submitter_config option"
  resumeAlert :: "json option"
  resultObjects :: "result list"
  sheetsSubmissions :: "result list"

definition STORAGE_KEY :: string where
  "STORAGE_KEY = ''school_cbt_active_session''"

definition clearActiveState :: "page \<Rightarrow> page" where
  "clearActiveState p = p\<lparr>localStorage := (localStorage p)(STORAGE_KEY := None)\<rparr>"

text \<open>
  \<^verbatim>\<open>initResumeDetection\<close>. \<^verbatim>\<open>JSON.parse\<close> is the argument \<open>parse\<close> (\<open>None\<close>
  when it throws); \<open>alertPresent\<close> says whether the three elements of the resume alert
  are in the document. The only call of \<^verbatim>\<open>resumeExam\<close> is in the click handler that the
  valid branch binds, so a page whose \<open>resumeAlert\<close> stays \<open>None\<close> restores nothing.
\<close>

definition isValidSession :: "json option \<Rightarrow> bool" where
  "isValidSession parsed \<longleftrightarrow>
     truthy parsed \<and> truthy (getProp parsed ''exam'')
     \<and> truthy (getProp (getProp parsed ''exam'') ''examId'')
     \<and> truthy (getProp parsed ''student'')
     \<and> (case getProp (getProp parsed ''student'') ''name'' of
          Some (JStr s) \<Rightarrow> length (trim s) > 0
        | _ \<Rightarrow> False)"

definition initResumeDetection :: "(string \<Rightarrow> json option) \<Rightarrow> bool \<Rightarrow> page \<Rightarrow> page" where
  "initResumeDetection parse alertPresent p =
     (case localStorage p STORAGE_KEY of
        None \<Rightarrow> p
      | Some saved \<Rightarrow>
          if saved = [] then p
          else
            (case parse saved of
               None \<Rightarrow> clearActiveState p
             | Some parsed \<Rightarrow>
                 if isValidSession (Some parsed)
                 then (if alertPresent then p\<lparr>resumeAlert := Some parsed\<rparr> else p)
                 else clearActiveState p))"

text \<open>
  The body of the \<^verbatim>\<open>map\<close> callback of \<^verbatim>\<open>submitExam\<close> for one question, on the five
  counters it updates. \<open>selectedOf\<close> is \<^verbatim>\<open>state.answers[q.questionId] || null\<close>: the
  read of a plain object finds an own property or, failing that, the member of
  \<^verbatim>\<open>Object.prototype\<close> of that name (a function or an object, so truthy and equal to
  no option key); \<open>objectPrototypeMembers\<close> lists these names.
\<close>

record tally =
  score :: int
  totalObtainable :: int
  correctCount :: int
  wrongCount :: int
  unansweredCount :: int

definition objectPrototypeMembers :: "string list" where
  "objectPrototypeMembers =
     [''constructor'', ''__defineGetter__'', ''__defineSetter__'', ''hasOwnProperty'',
      ''__lookupGetter__'', ''__lookupSetter__'', ''isPrototypeOf'', ''propertyIsEnumerable'',
      ''toString'', ''valueOf'', ''__proto__'', ''toLocaleString'']"

definition selectedOf :: "(string \<rightharpoonup> string) \<Rightarrow> question \<Rightarrow> selection" where
  "selectedOf ans q =
     (case ans (questionId q) of
        Some s \<Rightarrow> (if s = [] then NoSelection else Chosen s)
      | None \<Rightarrow>
          (if questionId q \<in> set objectPrototypeMembers then Inherited (questionId q)
           else NoSelection))"

definition marksOf :: "question \<Rightarrow> int" where
  "marksOf q = (case marks q of None \<Rightarrow> 1 | Some v \<Rightarrow> (if v = 0 then 1 else v))"

definition gradeQuestion ::
  "(string \<rightharpoonup> string) \<Rightarrow> question \<Rightarrow> tally \<Rightarrow> answer_outcome \<times> tally" where
  "gradeQuestion ans q t =
     (let selected = selectedOf ans q;
          mk = marksOf q;
          t1 = t\<lparr>totalObtainable := totalObtainable t + mk\<rparr>;
          correct = (selected = Chosen (correctAnswer q));
          awarded = (if correct then mk else 0);
          t2 = (if selected = NoSelection then t1\<lparr>unansweredCount := unansweredCount t1 + 1\<rparr>
                else if correct
                then t1\<lparr>correctCount := correctCount t1 + 1, score := score t1 + mk\<rparr>
                else t1\<lparr>wrongCount := wrongCount t1 + 1\<rparr>)
      in (\<lparr>answeredQuestionId = questionId q, selectedOption = selected,
           isCorrect = correct, marksAwarded = awarded\<rparr>, t2))"

fun gradeAll ::
  "(string \<rightharpoonup> string) \<Rightarrow> question list \<Rightarrow> tally \<Rightarrow> answer_outcome list \<times> tally" where
  "gradeAll ans [] t = ([], t)"
| "gradeAll ans (q # qs) t =
     (case gradeQuestion ans q t of
        (a, t1) \<Rightarrow> (case gradeAll ans qs t1 of (as, t2) \<Rightarrow> (a # as, t2)))"

text \<open>
  The lines of \<^verbatim>\<open>submitExam\<close> from the counters to \<^verbatim>\<open>passed\<close>, and the
  \<^verbatim>\<open>scoring\<close> block of the result object.
\<close>

definition scoreExam :: "exam \<Rightarrow> (string \<rightharpoonup> string) \<Rightarrow> answer_outcome list \<times> scoring" where
  "scoreExam e ans =
     (case gradeAll ans (questions e)
             \<lparr>score = 0, totalObtainable = 0, correctCount = 0, wrongCount = 0,
              unansweredCount = 0\<rparr> of
        (arr, t) \<Rightarrow>
          let pct = (if totalObtainable t > 0
                     then numDiv
                            (mathRound
                               (numMul (numDiv (toNumber (score t)) (toNumber (totalObtainable t)))
                                  (Finite 10000)))
                            (Finite 100)
                     else Finite 0);
              pm = (case passMark e of None \<Rightarrow> 50 | Some v \<Rightarrow> (if v = 0 then 50 else v))
          in (arr,
              \<lparr>totalQuestions = int (length (questions e)),
               attemptedQuestions = int (length (questions e)) - unansweredCount t,
               correctAnswers = correctCount t,
               wrongAnswers = wrongCount t,
               unansweredQuestions = unansweredCount t,
               totalMarks = totalObtainable t,
               obtainedMarks = score t,
               percentage = pct,
               passed = numGe pct (toNumber pm)\<rparr>))"

text \<open>
  \<^verbatim>\<open>submitExam(isAuto, submissionType = 'manual')\<close>. The clock readings and the
  random draws of the call are its first three arguments. With no exam loaded the read of
  \<^verbatim>\<open>state.exam.questions\<close> throws, after the flag has been set. The promise of
  \<^verbatim>\<open>SheetsSubmitter.submit\<close> settles later; its continuation is \<open>onSubmitSettled\<close>.
\<close>

definition submitExam ::
  "int \<Rightarrow> date \<Rightarrow> (nat \<Rightarrow> rat) \<Rightarrow> bool \<Rightarrow> string option \<Rightarrow> page \<Rightarrow> completion \<times> page" where
  "submitExam now today random isAuto submissionTypeArg p =
     (if isSubmitted (state p) then (Returned, p)
      else
        let submissionType0 = (case submissionTypeArg of None \<Rightarrow> ''manual'' | Some s \<Rightarrow> s);
            p1 = clearActiveState (p\<lparr>state := (state p)\<lparr>isSubmitted := True, timerId := None\<rparr>\<rparr>);
            p2 = p1\<lparr>state := (state p1)\<lparr>timing := (timing (state p1))\<lparr>submittedAt := Some now\<rparr>\<rparr>\<rparr>;
            st = state p2;
            finalSubmissionType =
              (if isAuto \<and> submissionType0 = ''manual'' then ''auto-timeout'' else submissionType0)
        in case exam st of
             None \<Rightarrow> (Threw, p2)
           | Some e \<Rightarrow>
               (case scoreExam e (answers st) of
                  (answersArr, sc) \<Rightarrow>
                    let used = mathCeil
                                 (numDiv (toNumber (durationAllowed (timing st) * 60 - timeLeft st))
                                    (Finite 60));
                        integrityData =
                          (case integrityModule p2 of
                             None \<Rightarrow> (0, [])
                           | Some m \<Rightarrow> getViolations m);
                        p3 = p2\<lparr>integrityModule := map_option destroy (integrityModule p2)\<rparr>;
                        resultObject =
                          \<lparr>submissionId =
                             (case sheetsSubmitter p3 of
                                Some c \<Rightarrow> generateSubmissionId today random
                              | None \<Rightarrow> ''SUB-'' @ toString now),
                           version = ''1.0.0'',
                           fullName = name (student st),
                           registrationNumber = seatNumber (student st),
                           studentClass = className (student st),
                           resultExamId = examId e,
                           resultTitle = examTitle e,
                           resultSubject = examSubject e,
                           resultTerm = examTerm e,
                           resultAcademicYear = academicYear e,
                           answersArray = answersArr,
                           resultScoring = sc,
                           resultStartedAt = startedAt (timing st),
                           resultSubmittedAt = submittedAt (timing st),
                           resultDurationAllowed = durationAllowed (timing st),
                           durationUsed = used,
                           submissionType = finalSubmissionType,
                           clientTimestamp = now,
                           integrityViolations = fst integrityData,
                           integrityLog = snd integrityData\<rparr>;
                        p4 = p3\<lparr>resultObjects := resultObjects p3 @ [resultObject]\<rparr>;
                        p5 = (case sheetsSubmitter p4 of
                                Some c \<Rightarrow>
                                  p4\<lparr>sheetsSubmissions := sheetsSubmissions p4 @ [resultObject]\<rparr>
                              | None \<Rightarrow> p4)
                    in (Returned, p5)))"

text \<open>
  The \<^verbatim>\<open>then\<close> and \<^verbatim>\<open>catch\<close> continuations on the promise of
  \<^verbatim>\<open>SheetsSubmitter.submit(resultObject)\<close>; \<^verbatim>\<open>JSON.stringify\<close> is the argument
  \<open>stringify\<close>.
\<close>

definition onSubmitSettled ::
  "(result \<Rightarrow> string) \<Rightarrow> result \<Rightarrow> outcome promise \<Rightarrow> page \<Rightarrow> page" where
  "onSubmitSettled stringify resultObject settled p =
     (case settled of
        Resolved response \<Rightarrow>
          if \<not> success response
          then p\<lparr>localStorage := (localStorage p)
                   (''exam_result_'' @ submissionId resultObject \<mapsto> stringify resultObject)\<rparr>
          else p
      | Rejected err \<Rightarrow> p)"

text \<open>Delivery of one result from start to end: the call, then its continuation.\<close>

definition deliverResult ::
  "(result \<Rightarrow> string) \<Rightarrow> submitter_config \<Rightarrow> (int \<Rightarrow> attempt_outcome) \<Rightarrow> int \<Rightarrow> result \<Rightarrow> page
     \<Rightarrow> page" where
  "deliverResult stringify c fetch now resultObject p =
     onSubmitSettled stringify resultObject (fst (submit c fetch now resultObject)) p"


section \<open>Auxiliary notions and sample inputs\<close>

text \<open>
  \<open>recordable\<close> collects the guards at the head of \<^verbatim>\<open>_logViolation\<close>.
  \<open>hasExamId\<close> and \<open>hasStudentName\<close> say, in the words of the specification, that a
  parsed snapshot carries an exam id and a student name that is not empty after trimming.
  \<open>startTally\<close> is the five counters at zero and \<open>isFetch\<close> picks the requests out of
  what a submission sent.
\<close>

definition recordable :: "violation_type \<Rightarrow> int \<Rightarrow> monitor \<Rightarrow> bool" where
  "recordable ty now m \<longleftrightarrow>
     isActive m \<and> \<not> isSubmitting m \<and> \<not> (isReentering m \<and> ty = FullscreenExit)
     \<and> \<not> now - lastViolationTime m < 1000"

definition hasExamId :: "json \<Rightarrow> bool" where
  "hasExamId payload \<longleftrightarrow> truthy (getProp (getProp (Some payload) ''exam'') ''examId'')"

definition hasStudentName :: "json \<Rightarrow> bool" where
  "hasStudentName payload \<longleftrightarrow>
     (case getProp (getProp (Some payload) ''student'') ''name'' of
        Some (JStr s) \<Rightarrow> trim s \<noteq> []
      | _ \<Rightarrow> False)"

definition startTally :: tally where
  "startTally = \<lparr>score = 0, totalObtainable = 0, correctCount = 0, wrongCount = 0,
                 unansweredCount = 0\<rparr>"

fun isFetch :: "wire \<Rightarrow> bool" where
  "isFetch (Fetch a) = True"
| "isFetch (Delay d) = False"

text \<open>
  The concrete modules, subscribers, exams and pages at which the theorems below are
  instantiated.
\<close>

definition noPatch :: config_patch where
  "noPatch = \<lparr>set_containerHasRfs = None, set_autoSubmitOnViolation = None,
              set_violationThreshold = None, set_enableWarnings = None, set_strictMode = None\<rparr>"

definition sampleMonitor :: monitor where
  "sampleMonitor = init noPatch loadedModule"

definition today :: date where
  "today = \<lparr>getFullYear = 2026, getMonth = 10, getDate = 3\<rparr>"

definition alwaysThrows :: violation_callback where
  "alwaysThrows = (\<lambda>entry count mx. Threw)"

definition alwaysReturns :: violation_callback where
  "alwaysReturns = (\<lambda>entry count mx. Returned)"

definition submitCallback :: auto_submit_callback where
  "submitCallback = (\<lambda>u. Returned)"

definition autoSubmitAtOne :: config_patch where
  "autoSubmitAtOne = noPatch\<lparr>set_autoSubmitOnViolation := Some True, set_violationThreshold := Some 1\<rparr>"

definition throwingSession :: monitor where
  "throwingSession =
     registerOnAutoSubmit submitCallback
       (registerOnViolation alwaysThrows (init autoSubmitAtOne loadedModule))"

definition twoSubscribers :: monitor where
  "twoSubscribers = registerOnViolation alwaysReturns (registerOnViolation alwaysThrows sampleMonitor)"

definition plainContainer :: monitor where
  "plainContainer = init (noPatch\<lparr>set_containerHasRfs := Some False\<rparr>) loadedModule"

definition afterExit :: monitor where
  "afterExit = snd (deliver (FullscreenChange False) 1000 sampleMonitor)"

definition q1 :: question where
  "q1 = \<lparr>questionId = ''Q1'', questionText = ''2 + 2 = ?'',
          options = [(''A'', ''3''), (''B'', ''4''), (''C'', ''5''), (''D'', ''22'')],
          correctAnswer = ''B'', marks = Some 5\<rparr>"

definition q2 :: question where
  "q2 = \<lparr>questionId = ''Q2'', questionText = ''3 * 3 = ?'',
          options = [(''A'', ''9''), (''B'', ''6''), (''C'', ''33''), (''D'', ''0'')],
          correctAnswer = ''A'', marks = Some 10\<rparr>"

definition scenarioA :: exam where
  "scenarioA = \<lparr>examId = ''MATH-1'', examTitle = ''Mathematics'', examSubject = ''Maths'',
                 examTerm = ''First'', academicYear = ''2026'', passMark = Some 50,
                 showResults = True, questions = [q1, q2]\<rparr>"

definition scenarioAnswers :: "string \<rightharpoonup> string" where
  "scenarioAnswers = [''Q1'' \<mapsto> ''B'', ''Q2'' \<mapsto> ''C'']"

definition negativeMarksExam :: exam where
  "negativeMarksExam = scenarioA\<lparr>questions := [q1\<lparr>marks := Some (- 5)\<rparr>]\<rparr>"

definition emptyExam :: exam where
  "emptyExam = scenarioA\<lparr>questions := []\<rparr>"


definition borderlineExam :: exam where
  "borderlineExam =
     scenarioA\<lparr>passMark := Some 56,
                questions := [q1\<lparr>marks := Some 11199\<rparr>, q2\<lparr>marks := Some 8801\<rparr>]\<rparr>"

definition constructorExam :: exam where
  "constructorExam = scenarioA\<lparr>questions := [q1\<lparr>questionId := ''constructor''\<rparr>]\<rparr>"

definition sampleConfig :: submitter_config where
  "sampleConfig = \<lparr>webhookUrl = ''https://script.example/exec'', maxRetries = 3, retryDelay = 2000\<rparr>"

definition offline :: "int \<Rightarrow> attempt_outcome" where
  "offline = (\<lambda>attempt. Failed (Some ''Failed to fetch''))"

definition blankNamePayload :: json where
  "blankNamePayload =
     JObj [(''student'', JObj [(''name'', JStr ''   ''), (''seatNumber'', JStr ''A12'')]),
           (''exam'', JObj [(''examId'', JStr ''MATH-1'')]),
           (''currentQIndex'', JNum 0), (''timeLeft'', JNum 1200)]"

definition sampleSession :: session where
  "sampleSession =
     \<lparr>student = \<lparr>name = ''Ada'', seatNumber = ''A12'', className = ''JSS1'', subject = ''Maths''\<rparr>,
      exam = Some scenarioA, currentQIndex = 1, answers = scenarioAnswers, timeLeft = 600,
      timerId = Some 1, isSubmitted = False,
      timing = \<lparr>startedAt = Some 0, submittedAt = None, durationAllowed = 30\<rparr>\<rparr>"

definition samplePage :: page where
  "samplePage =
     \<lparr>state = sampleSession, localStorage = [STORAGE_KEY \<mapsto> ''{}''],
      integrityModule = Some sampleMonitor, sheetsSubmitter = Some sampleConfig,
      resumeAlert = None, resultObjects = [], sheetsSubmissions = []\<rparr>"

definition sampleResult :: result where
  "sampleResult = last (resultObjects (snd (submitExam 5000 today (\<lambda>k. 1 / 2) False None samplePage)))"

lemmas monitor_defs = sampleMonitor_def init_def destroy_def loadedModule_def defaultConfig_def
  mergeConfig_def noPatch_def visibilityChange_def blur_def fullscreenChange_def
  logViolation_def Let_def showWarning_def enforceFullscreen_def triggerAutoSubmit_def
  registerOnViolation_def registerOnAutoSubmit_def reentryTimeout_def requestSettled_def
  triggerViolation_def setStrictMode_def

lemmas scoring_defs = scoreExam_def gradeQuestion_def selectedOf_def marksOf_def Let_def
  scenarioA_def scenarioAnswers_def negativeMarksExam_def emptyExam_def q1_def q2_def
  objectPrototypeMembers_def

section \<open>The debounce window\<close>

lemma showWarning_fields [simp]:
  "violations (showWarning ty c x m) = violations m"
  "violationLog (showWarning ty c x m) = violationLog m"
  "lastViolationTime (showWarning ty c x m) = lastViolationTime m"
  "isActive (showWarning ty c x m) = isActive m"
  "isSubmitting (showWarning ty c x m) = isSubmitting m"
  "isReentering (showWarning ty c x m) = isReentering m"
  "cfg (showWarning ty c x m) = cfg m"
  "onViolation (showWarning ty c x m) = onViolation m"
  "onAutoSubmit (showWarning ty c x m) = onAutoSubmit m"
  "listening (showWarning ty c x m) = listening m"
  by (simp_all add: showWarning_def)

lemma enforceFullscreen_fields [simp]:
  "violations (enforceFullscreen m) = violations m"
  "violationLog (enforceFullscreen m) = violationLog m"
  "lastViolationTime (enforceFullscreen m) = lastViolationTime m"
  "isActive (enforceFullscreen m) = isActive m"
  "isSubmitting (enforceFullscreen m) = isSubmitting m"
  "cfg (enforceFullscreen m) = cfg m"
  "onViolation (enforceFullscreen m) = onViolation m"
  "onAutoSubmit (enforceFullscreen m) = onAutoSubmit m"
  "listening (enforceFullscreen m) = listening m"
  by (simp_all add: enforceFullscreen_def)

lemma triggerAutoSubmit_fields [simp]:
  "violations (triggerAutoSubmit m) = violations m"
  "violationLog (triggerAutoSubmit m) = violationLog m"
  "lastViolationTime (triggerAutoSubmit m) = lastViolationTime m"
  "isReentering (triggerAutoSubmit m) = isReentering m"
  "cfg (triggerAutoSubmit m) = cfg m"
  "onViolation (triggerAutoSubmit m) = onViolation m"
  "onAutoSubmit (triggerAutoSubmit m) = onAutoSubmit m"
  "listening (triggerAutoSubmit m) = listening m"
  by (simp_all add: triggerAutoSubmit_def)

lemma logViolation_skip:
  "\<not> recordable ty now m \<Longrightarrow> logViolation ty now m = (Returned, m)"
  by (auto simp: recordable_def logViolation_def)

lemma logViolation_record:
  assumes "recordable ty now m"
  shows "violations (snd (logViolation ty now m)) = violations m + 1"
    and "violationLog (snd (logViolation ty now m)) =
           violationLog m @ [\<lparr>entry_type = ty, timestamp = now\<rparr>]"
    and "lastViolationTime (snd (logViolation ty now m)) = now"
  using assms by (simp_all add: recordable_def logViolation_def Let_def)

lemma logViolation_unchanged_or_recorded:
  "logViolation ty now m = (Returned, m) \<or>
   (now - lastViolationTime m \<ge> 1000 \<and>
    violations (snd (logViolation ty now m)) = violations m + 1 \<and>
    violationLog (snd (logViolation ty now m)) =
      violationLog m @ [\<lparr>entry_type = ty, timestamp = now\<rparr>] \<and>
    lastViolationTime (snd (logViolation ty now m)) = now)"
proof (cases "recordable ty now m")
  case True
  then show ?thesis using logViolation_record [OF True] by (simp add: recordable_def)
next
  case False
  then show ?thesis by (simp add: logViolation_skip)
qed

lemma deliver_shape:
  "deliver s now m = (Returned, m) \<or> deliver s now m = (Returned, m\<lparr>isReentering := False\<rparr>)
   \<or> (\<exists>ty. deliver s now m = logViolation ty now m)"
  by (cases s) (auto simp: visibilityChange_def blur_def fullscreenChange_def)

lemma deliver_unchanged_or_recorded:
  "(violations (snd (deliver s now m)) = violations m \<and>
    violationLog (snd (deliver s now m)) = violationLog m \<and>
    lastViolationTime (snd (deliver s now m)) = lastViolationTime m) \<or>
   (now - lastViolationTime m \<ge> 1000 \<and>
    violations (snd (deliver s now m)) = violations m + 1 \<and>
    (\<exists>ty. violationLog (snd (deliver s now m)) =
      violationLog m @ [\<lparr>entry_type = ty, timestamp = now\<rparr>]) \<and>
    lastViolationTime (snd (deliver s now m)) = now)"
proof -
  consider "deliver s now m = (Returned, m)"
    | "deliver s now m = (Returned, m\<lparr>isReentering := False\<rparr>)"
    | ty where "deliver s now m = logViolation ty now m"
    using deliver_shape by blast
  then show ?thesis
  proof cases
    case 1 then show ?thesis by simp
  next
    case 2 then show ?thesis by simp
  next
    case 3
    show ?thesis
      using logViolation_unchanged_or_recorded [of ty now m] unfolding 3 by auto
  qed
qed

lemma step_unchanged_or_recorded:
  "(violations (snd (step e now m)) = violations m \<and>
    violationLog (snd (step e now m)) = violationLog m \<and>
    lastViolationTime (snd (step e now m)) = lastViolationTime m) \<or>
   (now - lastViolationTime m \<ge> 1000 \<and>
    violations (snd (step e now m)) = violations m + 1 \<and>
    lastViolationTime (snd (step e now m)) = now)"
proof (cases e)
  case (Signal s)
  then show ?thesis using deliver_unchanged_or_recorded [of s now m] by auto
next
  case (TriggerViolation ty)
  then show ?thesis
    using logViolation_unchanged_or_recorded [of ty now m] by (auto simp: triggerViolation_def)
qed (simp_all add: reentryTimeout_def requestSettled_def registerOnViolation_def
       registerOnAutoSubmit_def setStrictMode_def destroy_def)

lemma step_lastViolationTime_mono:
  "lastViolationTime m \<le> lastViolationTime (snd (step e now m))"
  using step_unchanged_or_recorded [of e now m] by auto

lemma run_lastViolationTime_mono:
  "lastViolationTime m \<le> lastViolationTime (run es m)"
proof (induction es arbitrary: m)
  case Nil
  show ?case by simp
next
  case (Cons a es)
  obtain e now where a: "a = (e, now)" by (cases a)
  have "lastViolationTime m \<le> lastViolationTime (snd (step e now m))"
    by (rule step_lastViolationTime_mono)
  also have "\<dots> \<le> lastViolationTime (run es (snd (step e now m)))"
    by (rule Cons.IH)
  finally show ?case by (simp add: a)
qed

text \<open>
  Claim C3. Take two raw signals whose arrival times differ by less than 1000 ms, the
  first delivered to the module in any state, the second after any events in between. If
  the first became a recorded violation, the second is debounced: it leaves the count and
  the ledger as they were. So at most one of the two is recorded.
\<close>

theorem debounce_pair:
  assumes "\<bar>t2 - t1\<bar> < 1000"
    and "violations (snd (deliver s1 t1 m)) \<noteq> violations m"
  shows "violations (snd (deliver s2 t2 (run es (snd (deliver s1 t1 m)))))
           = violations (run es (snd (deliver s1 t1 m)))
       \<and> violationLog (snd (deliver s2 t2 (run es (snd (deliver s1 t1 m)))))
           = violationLog (run es (snd (deliver s1 t1 m)))"
proof -
  let ?m1 = "snd (deliver s1 t1 m)"
  let ?k = "run es ?m1"
  have "lastViolationTime ?m1 = t1"
    using deliver_unchanged_or_recorded [of s1 t1 m] assms(2) by auto
  then have "t1 \<le> lastViolationTime ?k"
    using run_lastViolationTime_mono [of ?m1 es] by simp
  then have "\<not> t2 - lastViolationTime ?k \<ge> 1000"
    using assms(1) by linarith
  then show ?thesis
    using deliver_unchanged_or_recorded [of s2 t2 ?k] by auto
qed

theorem debounce_pair_witness:
  "\<bar>5900 - 5000\<bar> < (1000::int)
   \<and> violations (snd (deliver (VisibilityChange True) 5000 sampleMonitor))
       \<noteq> violations sampleMonitor
   \<and> violations (snd (deliver (FullscreenChange False) 5900
         (run [(Signal (Blur False), 5200)]
            (snd (deliver (VisibilityChange True) 5000 sampleMonitor)))))
       = violations (run [(Signal (Blur False), 5200)]
            (snd (deliver (VisibilityChange True) 5000 sampleMonitor)))"
proof -
  have h1: "\<bar>5900 - 5000\<bar> < (1000::int)" by simp
  have h2: "violations (snd (deliver (VisibilityChange True) 5000 sampleMonitor))
              \<noteq> violations sampleMonitor"
    by (simp add: sampleMonitor_def init_def destroy_def loadedModule_def visibilityChange_def
        logViolation_def Let_def)
  show ?thesis
    using h1 h2 debounce_pair [OF h1 h2, of "FullscreenChange False" "[(Signal (Blur False), 5200)]"]
    by blast
qed

section \<open>Notification of subscribers\<close>

lemma forEachAutoSubmit_count:
  "count_list (forEachAutoSubmit k cbs fx) (AutoSubmitNotified i) =
     count_list fx (AutoSubmitNotified i) + (if k \<le> i \<and> i < k + length cbs then 1 else 0)"
  by (induction k cbs fx rule: forEachAutoSubmit.induct) (auto split: completion.splits)

lemma forEachAutoSubmit_errors:
  "count_list (forEachAutoSubmit k cbs fx) (ErrorLogged i) =
     count_list fx (ErrorLogged i)
     + (if k \<le> i \<and> i < k + length cbs \<and> (cbs ! (i - k)) () = Threw then 1 else 0)"
proof (induction k cbs fx rule: forEachAutoSubmit.induct)
  case (1 i fx)
  then show ?case by simp
next
  case (2 k cb cbs fx)
  show ?case
  proof (cases "k = i")
    case True
    then show ?thesis using 2 by (auto split: completion.splits)
  next
    case False
    have "(cb # cbs) ! (i - k) = cbs ! (i - Suc k)" if "k \<le> i"
    proof -
      have "i - k = Suc (i - Suc k)" using that False by arith
      then show ?thesis by simp
    qed
    then show ?thesis using 2 False by (auto split: completion.splits)
  qed
qed

lemma forEachViolation_count:
  "count_list (snd (forEachViolation k cbs e c t fx)) (AutoSubmitNotified i) =
     count_list fx (AutoSubmitNotified i)"
  by (induction k cbs e c t fx rule: forEachViolation.induct) (auto split: completion.splits)

lemma forEachViolation_prefix:
  "\<exists>more. snd (forEachViolation k cbs e c t fx) = fx @ more"
  by (induction k cbs e c t fx rule: forEachViolation.induct) (auto split: completion.splits)

lemma forEachViolation_returns:
  "\<forall>cb \<in> set cbs. \<forall>e c t. cb e c t = Returned \<Longrightarrow>
   fst (forEachViolation k cbs e c t fx) = Returned"
  by (induction k cbs e c t fx rule: forEachViolation.induct) simp_all

lemma showWarning_count:
  "count_list (effects (showWarning ty c x m)) (AutoSubmitNotified i) =
     count_list (effects m) (AutoSubmitNotified i)"
  by (simp add: showWarning_def)

lemma enforceFullscreen_count:
  "count_list (effects (enforceFullscreen m)) (AutoSubmitNotified i)
     = count_list (effects m) (AutoSubmitNotified i)"
  by (simp add: enforceFullscreen_def)

text \<open>
  The auto-submit subscribers are isolated from each other: \<^verbatim>\<open>_triggerAutoSubmit\<close>
  calls every registered subscriber once, logs one error for each one that throws, and
  completes its state update.
\<close>

lemma auto_submit_subscribers_isolated:
  assumes "isActive m" "\<not> isSubmitting m"
  shows "isSubmitting (triggerAutoSubmit m) \<and> \<not> isActive (triggerAutoSubmit m)
       \<and> (i < length (onAutoSubmit m) \<longrightarrow>
            count_list (effects (triggerAutoSubmit m)) (AutoSubmitNotified i)
              = count_list (effects m) (AutoSubmitNotified i) + 1)
       \<and> (i < length (onAutoSubmit m) \<longrightarrow> (onAutoSubmit m ! i) () = Threw \<longrightarrow>
            count_list (effects (triggerAutoSubmit m)) (ErrorLogged i)
              = count_list (effects m) (ErrorLogged i) + 1)"
  using assms
  by (simp add: triggerAutoSubmit_def forEachAutoSubmit_count forEachAutoSubmit_errors)

text \<open>
  Claim C4. An exception thrown by one subscriber is caught and logged, every other
  subscriber is still called and the state update completes. The violation subscribers
  are not treated so: with two of them registered, the first throwing, a tab switch at
  1000 ms is recorded and shown, the first subscriber is called, its exception leaves
  \<^verbatim>\<open>_logViolation\<close>, the second subscriber is never called and no error is logged.
\<close>

theorem violation_subscriber_exception_escapes:
  "fst (deliver (VisibilityChange True) 1000 twoSubscribers) = Threw
   \<and> effects (snd (deliver (VisibilityChange True) 1000 twoSubscribers))
       = [Alert (Warning TabSwitch 1 2), ViolationNotified 0]"
  by (simp add: twoSubscribers_def alwaysThrows_def alwaysReturns_def monitor_defs)

section \<open>Auto-submission at the threshold\<close>

lemma submitting_step:
  assumes "isSubmitting m"
  shows "isSubmitting (snd (step e now m))"
    and "violations (snd (step e now m)) = violations m"
    and "violationLog (snd (step e now m)) = violationLog m"
    and "effects (snd (step e now m)) = effects m"
proof -
  have l: "logViolation ty now m = (Returned, m)" for ty
    using assms by (simp add: logViolation_def)
  have d: "deliver s now m = (Returned, m) \<or> deliver s now m = (Returned, m\<lparr>isReentering := False\<rparr>)" for s
    using assms by (cases s) (simp_all add: visibilityChange_def blur_def fullscreenChange_def)
  have "isSubmitting (snd (step e now m)) \<and> violations (snd (step e now m)) = violations m
        \<and> violationLog (snd (step e now m)) = violationLog m
        \<and> effects (snd (step e now m)) = effects m"
  proof (cases e)
    case (Signal s)
    then show ?thesis using d [of s] assms by auto
  next
    case (TriggerViolation ty)
    then show ?thesis using l assms by (simp add: triggerViolation_def)
  qed (use assms in \<open>simp_all add: reentryTimeout_def requestSettled_def registerOnViolation_def
         registerOnAutoSubmit_def setStrictMode_def destroy_def\<close>)
  then show "isSubmitting (snd (step e now m))"
    and "violations (snd (step e now m)) = violations m"
    and "violationLog (snd (step e now m)) = violationLog m"
    and "effects (snd (step e now m)) = effects m" by simp_all
qed

lemma submitting_is_final:
  "isSubmitting m \<Longrightarrow>
   isSubmitting (run es m) \<and> violations (run es m) = violations m
   \<and> violationLog (run es m) = violationLog m \<and> effects (run es m) = effects m"
proof (induction es arbitrary: m)
  case Nil
  then show ?case by simp
next
  case (Cons a es)
  obtain e now where a: "a = (e, now)" by (cases a)
  show ?case
    using Cons.IH [of "snd (step e now m)"] submitting_step [OF Cons.prems, of e now]
    by (simp add: a)
qed

lemma logViolation_recordable:
  assumes "recordable ty now m"
  defines "entry \<equiv> \<lparr>entry_type = ty, timestamp = now\<rparr>"
  defines "m2 \<equiv> showWarning ty (violations m + 1) (violationThreshold (cfg m))
                  (m\<lparr>lastViolationTime := now, violations := violations m + 1,
                     violationLog := violationLog m @ [entry]\<rparr>)"
  defines "n \<equiv> forEachViolation 0 (onViolation m) entry (violations m + 1)
                 (violationThreshold (cfg m)) (effects m2)"
  shows "fst n = Threw \<Longrightarrow> logViolation ty now m = (Threw, m2\<lparr>effects := snd n\<rparr>)"
    and "fst n = Returned \<Longrightarrow> \<not> violationThreshold (cfg m) \<le> violations m + 1 \<Longrightarrow>
           logViolation ty now m =
             (Returned, if ty = FullscreenExit then enforceFullscreen (m2\<lparr>effects := snd n\<rparr>)
                        else m2\<lparr>effects := snd n\<rparr>)"
    and "fst n = Returned \<Longrightarrow> violationThreshold (cfg m) \<le> violations m + 1 \<Longrightarrow>
           logViolation ty now m =
             (Returned, if autoSubmitOnViolation (cfg m)
                        then triggerAutoSubmit (m2\<lparr>effects := snd n\<rparr>)
                        else m2\<lparr>effects := snd n\<rparr>)"
  using assms(1) unfolding entry_def m2_def n_def
  by (auto simp: recordable_def logViolation_def Let_def)

lemma auto_submit_at_threshold:
  assumes "recordable ty now m"
    and "autoSubmitOnViolation (cfg m)"
    and "violationThreshold (cfg m) \<le> violations m + 1"
    and "fst (logViolation ty now m) = Returned"
  shows "isSubmitting (snd (logViolation ty now m)) \<and> \<not> isActive (snd (logViolation ty now m))
       \<and> (i < length (onAutoSubmit m) \<longrightarrow>
            count_list (effects (snd (logViolation ty now m))) (AutoSubmitNotified i)
              = count_list (effects m) (AutoSubmitNotified i) + 1)"
proof -
  let ?entry = "\<lparr>entry_type = ty, timestamp = now\<rparr>"
  let ?m2 = "showWarning ty (violations m + 1) (violationThreshold (cfg m))
               (m\<lparr>lastViolationTime := now, violations := violations m + 1,
                  violationLog := violationLog m @ [?entry]\<rparr>)"
  let ?n = "forEachViolation 0 (onViolation m) ?entry (violations m + 1)
              (violationThreshold (cfg m)) (effects ?m2)"
  have "fst ?n = Returned"
    using logViolation_recordable(1) [OF assms(1)] assms(4) by (cases "fst ?n") simp_all
  then have "logViolation ty now m = (Returned, triggerAutoSubmit (?m2\<lparr>effects := snd ?n\<rparr>))"
    using logViolation_recordable(3) [OF assms(1)] assms(2,3) by simp
  then show ?thesis
    using assms(1)
    by (simp add: recordable_def triggerAutoSubmit_def forEachAutoSubmit_count
        forEachViolation_count showWarning_count)
qed

lemma logViolation_quiet:
  assumes "autoSubmitOnViolation (cfg m)" and "violations m < violationThreshold (cfg m)"
    and "\<not> isSubmitting m"
    and "\<forall>cb \<in> set (onViolation m). \<forall>e c t. cb e c t = Returned"
  shows "cfg (snd (logViolation ty now m)) = cfg m
     \<and> onViolation (snd (logViolation ty now m)) = onViolation m
     \<and> ((violations (snd (logViolation ty now m)) < violationThreshold (cfg m)
          \<and> \<not> isSubmitting (snd (logViolation ty now m))
          \<and> (\<forall>i. count_list (effects (snd (logViolation ty now m))) (AutoSubmitNotified i)
                 = count_list (effects m) (AutoSubmitNotified i)))
        \<or> (violations (snd (logViolation ty now m)) = violationThreshold (cfg m)
          \<and> isSubmitting (snd (logViolation ty now m))
          \<and> \<not> isActive (snd (logViolation ty now m))
          \<and> (\<forall>i. count_list (effects (snd (logViolation ty now m))) (AutoSubmitNotified i)
                 = count_list (effects m) (AutoSubmitNotified i)
                   + (if i < length (onAutoSubmit m) then 1 else 0))))"
proof (cases "recordable ty now m")
  case False
  then show ?thesis using assms by (simp add: logViolation_skip)
next
  case True
  let ?entry = "\<lparr>entry_type = ty, timestamp = now\<rparr>"
  let ?m2 = "showWarning ty (violations m + 1) (violationThreshold (cfg m))
               (m\<lparr>lastViolationTime := now, violations := violations m + 1,
                  violationLog := violationLog m @ [?entry]\<rparr>)"
  let ?n = "forEachViolation 0 (onViolation m) ?entry (violations m + 1)
              (violationThreshold (cfg m)) (effects ?m2)"
  let ?m3 = "?m2\<lparr>effects := snd ?n\<rparr>"
  have r: "fst ?n = Returned" using assms(4) by (rule forEachViolation_returns)
  have c3: "count_list (effects ?m3) (AutoSubmitNotified i)
              = count_list (effects m) (AutoSubmitNotified i)" for i
    by (simp add: forEachViolation_count showWarning_count)
  show ?thesis
  proof (cases "violationThreshold (cfg m) \<le> violations m + 1")
    case False
    have "logViolation ty now m
            = (Returned, if ty = FullscreenExit then enforceFullscreen ?m3 else ?m3)"
      using logViolation_recordable(2) [OF True r False] .
    then show ?thesis
      using False assms(3) c3 by (auto simp: enforceFullscreen_count)
  next
    case exceeded: True
    have "logViolation ty now m = (Returned, triggerAutoSubmit ?m3)"
      using logViolation_recordable(3) [OF True r exceeded] assms(1) by simp
    moreover have "isActive ?m3" "\<not> isSubmitting ?m3"
      using True by (simp_all add: recordable_def)
    moreover have "violations m + 1 = violationThreshold (cfg m)"
      using exceeded assms(2) by simp
    ultimately show ?thesis
      using c3 by (simp add: triggerAutoSubmit_def forEachAutoSubmit_count)
  qed
qed

lemma step_quiet:
  assumes "autoSubmitOnViolation (cfg m)" and "violations m < violationThreshold (cfg m)"
    and "\<not> isSubmitting m"
    and "\<forall>cb \<in> set (onViolation m). \<forall>e c t. cb e c t = Returned"
    and "\<forall>cb. ev = OnViolation cb \<longrightarrow> (\<forall>e c t. cb e c t = Returned)"
  shows "autoSubmitOnViolation (cfg (snd (step ev now m)))
     \<and> violationThreshold (cfg (snd (step ev now m))) = violationThreshold (cfg m)
     \<and> (\<forall>cb \<in> set (onViolation (snd (step ev now m))). \<forall>e c t. cb e c t = Returned)
     \<and> ((violations (snd (step ev now m)) < violationThreshold (cfg m)
          \<and> \<not> isSubmitting (snd (step ev now m))
          \<and> (\<forall>i. count_list (effects (snd (step ev now m))) (AutoSubmitNotified i)
                 = count_list (effects m) (AutoSubmitNotified i)))
        \<or> (violations (snd (step ev now m)) = violationThreshold (cfg m)
          \<and> isSubmitting (snd (step ev now m))
          \<and> \<not> isActive (snd (step ev now m))
          \<and> (\<forall>i. count_list (effects (snd (step ev now m))) (AutoSubmitNotified i)
                 = count_list (effects m) (AutoSubmitNotified i)
                   + (if i < length (onAutoSubmit m) then 1 else 0))))"
proof -
  have l: "?thesis" if "step ev now m = logViolation ty now m" for ty
    using logViolation_quiet [OF assms(1-4), of ty now] assms(1,4) unfolding that by simp
  have u: "?thesis" if "step ev now m = (Returned, m)"
    using assms unfolding that by simp
  have f: "?thesis" if "step ev now m = (Returned, m\<lparr>isReentering := False\<rparr>)"
    using assms unfolding that by simp
  show ?thesis
  proof (cases ev)
    case (Signal s)
    then have eq: "step ev now m = deliver s now m" by simp
    consider "deliver s now m = (Returned, m)"
      | "deliver s now m = (Returned, m\<lparr>isReentering := False\<rparr>)"
      | ty where "deliver s now m = logViolation ty now m"
      using deliver_shape by blast
    then show ?thesis
    proof cases
      case 1
      show ?thesis by (rule u) (simp only: eq 1)
    next
      case 2
      show ?thesis by (rule f) (simp only: eq 2)
    next
      case 3
      show ?thesis by (rule l [of ty]) (simp only: eq 3)
    qed
  next
    case (TriggerViolation ty)
    show ?thesis by (rule l [of ty]) (simp add: TriggerViolation triggerViolation_def)
  next
    case ReentryTimeout
    then show ?thesis using assms by (simp add: reentryTimeout_def)
  next
    case (RequestSettled ok)
    then show ?thesis using assms by (simp add: requestSettled_def)
  next
    case (OnViolation cb)
    then show ?thesis using assms by (simp add: registerOnViolation_def)
  next
    case (OnAutoSubmit cb)
    then show ?thesis using assms by (simp add: registerOnAutoSubmit_def)
  next
    case (SetStrictMode b)
    then show ?thesis using assms by (simp add: setStrictMode_def)
  next
    case Destroy
    then show ?thesis using assms by (simp add: destroy_def)
  qed
qed

lemma run_quiet:
  assumes "autoSubmitOnViolation (cfg m)" and "violations m < violationThreshold (cfg m)"
    and "\<not> isSubmitting m"
    and "\<forall>cb \<in> set (onViolation m). \<forall>e c t. cb e c t = Returned"
    and "\<forall>cb now. (OnViolation cb, now) \<in> set es \<longrightarrow> (\<forall>e c t. cb e c t = Returned)"
  shows "(violations (run es m) < violationThreshold (cfg m)
          \<and> \<not> isSubmitting (run es m)
          \<and> (\<forall>i. count_list (effects (run es m)) (AutoSubmitNotified i)
                 = count_list (effects m) (AutoSubmitNotified i)))
        \<or> (violations (run es m) = violationThreshold (cfg m)
          \<and> isSubmitting (run es m) \<and> \<not> isActive (run es m)
          \<and> (\<exists>pre post. es = pre @ post
                \<and> (\<forall>i. count_list (effects (run es m)) (AutoSubmitNotified i)
                       = count_list (effects m) (AutoSubmitNotified i)
                         + (if i < length (onAutoSubmit (run pre m)) then 1 else 0))))"
  using assms
proof (induction es arbitrary: m)
  case Nil
  then show ?case by simp
next
  case (Cons a es)
  obtain ev now where a: "a = (ev, now)" by (cases a)
  let ?m' = "snd (step ev now m)"
  have wb: "\<forall>cb. ev = OnViolation cb \<longrightarrow> (\<forall>e c t. cb e c t = Returned)"
    using Cons.prems(5) a by auto
  have rest: "\<forall>cb now. (OnViolation cb, now) \<in> set es \<longrightarrow> (\<forall>e c t. cb e c t = Returned)"
    using Cons.prems(5) by auto
  note st = step_quiet [OF Cons.prems(1-4) wb, of now]
  have cfg': "autoSubmitOnViolation (cfg ?m')"
    "violationThreshold (cfg ?m') = violationThreshold (cfg m)"
    "\<forall>cb \<in> set (onViolation ?m'). \<forall>e c t. cb e c t = Returned"
    using st by blast+
  consider (quiet) "violations ?m' < violationThreshold (cfg m)" "\<not> isSubmitting ?m'"
      "\<forall>i. count_list (effects ?m') (AutoSubmitNotified i)
             = count_list (effects m) (AutoSubmitNotified i)"
    | (crossed) "violations ?m' = violationThreshold (cfg m)" "isSubmitting ?m'"
      "\<not> isActive ?m'"
      "\<forall>i. count_list (effects ?m') (AutoSubmitNotified i)
             = count_list (effects m) (AutoSubmitNotified i)
               + (if i < length (onAutoSubmit m) then 1 else 0)"
    using st by blast
  then show ?case
  proof cases
    case quiet
    have v: "violations ?m' < violationThreshold (cfg ?m')" using quiet(1) cfg'(2) by simp
    note ih = Cons.IH [OF cfg'(1) v quiet(2) cfg'(3) rest]
    show ?thesis
    proof (rule disjE [OF ih])
      assume "violations (run es ?m') < violationThreshold (cfg ?m') \<and>
        \<not> isSubmitting (run es ?m') \<and>
        (\<forall>i. count_list (effects (run es ?m')) (AutoSubmitNotified i) =
             count_list (effects ?m') (AutoSubmitNotified i))"
      then show ?thesis using quiet(3) cfg'(2) by (simp add: a)
    next
      assume h: "violations (run es ?m') = violationThreshold (cfg ?m') \<and>
        isSubmitting (run es ?m') \<and> \<not> isActive (run es ?m') \<and>
        (\<exists>pre post. es = pre @ post \<and>
           (\<forall>i. count_list (effects (run es ?m')) (AutoSubmitNotified i) =
                count_list (effects ?m') (AutoSubmitNotified i) +
                (if i < length (onAutoSubmit (run pre ?m')) then 1 else 0)))"
      then obtain pre post where pp: "es = pre @ post"
        "\<forall>i. count_list (effects (run es ?m')) (AutoSubmitNotified i) =
                count_list (effects ?m') (AutoSubmitNotified i) +
                (if i < length (onAutoSubmit (run pre ?m')) then 1 else 0)" by blast
      have "a # es = (a # pre) @ post" using pp(1) by simp
      moreover have "\<forall>i. count_list (effects (run (a # es) m)) (AutoSubmitNotified i) =
                count_list (effects m) (AutoSubmitNotified i) +
                (if i < length (onAutoSubmit (run (a # pre) m)) then 1 else 0)"
        using pp(2) quiet(3) by (simp add: a)
      ultimately have "\<exists>pre post. a # es = pre @ post \<and>
           (\<forall>i. count_list (effects (run (a # es) m)) (AutoSubmitNotified i) =
                count_list (effects m) (AutoSubmitNotified i) +
                (if i < length (onAutoSubmit (run pre m)) then 1 else 0))" by blast
      then show ?thesis using h cfg'(2) by (simp add: a)
    qed
  next
    case crossed
    note fin = submitting_is_final [OF crossed(2), of es]
    have "a # es = [] @ (a # es)" by simp
    moreover have "\<forall>i. count_list (effects (run (a # es) m)) (AutoSubmitNotified i) =
                count_list (effects m) (AutoSubmitNotified i) +
                (if i < length (onAutoSubmit (run [] m)) then 1 else 0)"
      using fin crossed(4) by (simp add: a)
    ultimately have "\<exists>pre post. a # es = pre @ post \<and>
           (\<forall>i. count_list (effects (run (a # es) m)) (AutoSubmitNotified i) =
                count_list (effects m) (AutoSubmitNotified i) +
                (if i < length (onAutoSubmit (run pre m)) then 1 else 0))" by blast
    moreover have "\<not> isActive (run es ?m')"
    proof -
      have "\<not> isActive k \<Longrightarrow> isSubmitting k \<Longrightarrow> \<not> isActive (run xs k)" for xs k
      proof (induction xs arbitrary: k)
        case Nil
        then show ?case by simp
      next
        case (Cons x xs)
        obtain e' n' where x: "x = (e', n')" by (cases x)
        have "isSubmitting (snd (step e' n' k))" using submitting_step(1) [OF Cons.prems(2)] .
        moreover have "\<not> isActive (snd (step e' n' k))"
        proof (cases e')
          case (Signal s)
          then show ?thesis using deliver_shape [of s n' k] Cons.prems
            by (auto simp: logViolation_def)
        next
          case (TriggerViolation ty)
          then show ?thesis using Cons.prems by (simp add: triggerViolation_def logViolation_def)
        qed (use Cons.prems in \<open>simp_all add: reentryTimeout_def requestSettled_def
               registerOnViolation_def registerOnAutoSubmit_def setStrictMode_def destroy_def\<close>)
        ultimately show ?case using Cons.IH by (simp add: x)
      qed
      then show ?thesis using crossed(2,3) by blast
    qed
    ultimately show ?thesis using fin crossed(1) by (simp add: a)
  qed
qed

text \<open>
  While every violation subscriber returns, a session started with auto-submission on and
  a threshold of at least 1 behaves as wanted: either the count is below the threshold and
  no auto-submit subscriber has been called, or the count is the threshold, the module is
  submitting and inactive, and each auto-submit subscriber registered when the threshold
  was reached has been called once; and whatever comes later changes neither the count,
  the ledger nor the effects.
\<close>

lemma auto_submit_once_while_subscribers_return:
  assumes "set_autoSubmitOnViolation p = Some True" and "set_violationThreshold p = Some T"
    and "1 \<le> T"
    and "\<forall>cb now. (OnViolation cb, now) \<in> set es \<longrightarrow> (\<forall>e c t. cb e c t = Returned)"
  shows "(violations (run es (init p k)) < T \<and> \<not> isSubmitting (run es (init p k))
          \<and> (\<forall>i. count_list (effects (run es (init p k))) (AutoSubmitNotified i)
                 = count_list (effects (init p k)) (AutoSubmitNotified i)))
        \<or> (violations (run es (init p k)) = T
          \<and> isSubmitting (run es (init p k)) \<and> \<not> isActive (run es (init p k))
          \<and> (\<exists>pre post. es = pre @ post
                \<and> (\<forall>i. count_list (effects (run es (init p k))) (AutoSubmitNotified i)
                       = count_list (effects (init p k)) (AutoSubmitNotified i)
                         + (if i < length (onAutoSubmit (run pre (init p k))) then 1 else 0)))
          \<and> (\<forall>later. violations (run later (run es (init p k))) = T
                \<and> violationLog (run later (run es (init p k))) = violationLog (run es (init p k))
                \<and> effects (run later (run es (init p k))) = effects (run es (init p k))))"
proof -
  let ?m = "init p k"
  have a: "autoSubmitOnViolation (cfg ?m)" using assms(1)
    by (simp add: init_def destroy_def mergeConfig_def Let_def)
  have t: "violationThreshold (cfg ?m) = T" using assms(2)
    by (simp add: init_def destroy_def mergeConfig_def Let_def)
  have v: "violations ?m < violationThreshold (cfg ?m)" using assms(3) unfolding t
    by (simp add: init_def destroy_def Let_def)
  have s: "\<not> isSubmitting ?m" by (simp add: init_def destroy_def Let_def)
  have c: "\<forall>cb \<in> set (onViolation ?m). \<forall>e c t. cb e c t = Returned"
    by (simp add: init_def destroy_def Let_def)
  note q = run_quiet [OF a v s c assms(4), unfolded t]
  have f: "violations (run later (run es ?m)) = violations (run es ?m)
         \<and> violationLog (run later (run es ?m)) = violationLog (run es ?m)
         \<and> effects (run later (run es ?m)) = effects (run es ?m)"
    if "isSubmitting (run es ?m)" for later
    using submitting_is_final [OF that, of later] by simp
  show ?thesis using q f by (elim disjE) (simp, simp)
qed

text \<open>
  Claim C1. In a session started with auto-submission on and a threshold of at least 1,
  when the count reaches the threshold the auto-submit subscribers are called once and no
  later signal is recorded. With a violation subscriber that throws this is not what
  happens: threshold 1, a tab switch at 1000 ms is recorded (count 1), the subscriber's
  exception leaves \<^verbatim>\<open>_logViolation\<close> before \<^verbatim>\<open>_triggerAutoSubmit\<close> is reached, the
  auto-submit subscriber is not called, the module stays active, and a blur at 2500 ms is
  recorded as a second violation.
\<close>

theorem threshold_reached_without_auto_submit:
  "autoSubmitOnViolation (cfg throwingSession)
   \<and> violationThreshold (cfg throwingSession) = 1
   \<and> fst (deliver (VisibilityChange True) 1000 throwingSession) = Threw
   \<and> violations (snd (deliver (VisibilityChange True) 1000 throwingSession)) = 1
   \<and> count_list (effects (snd (deliver (VisibilityChange True) 1000 throwingSession)))
        (AutoSubmitNotified 0) = 0
   \<and> isActive (snd (deliver (VisibilityChange True) 1000 throwingSession))
   \<and> \<not> isSubmitting (snd (deliver (VisibilityChange True) 1000 throwingSession))
   \<and> violations (snd (deliver (Blur False) 2500
        (snd (deliver (VisibilityChange True) 1000 throwingSession)))) = 2"
  by (simp add: throwingSession_def autoSubmitAtOne_def alwaysThrows_def submitCallback_def
      monitor_defs)

section \<open>Fullscreen remediation\<close>

text \<open>
  A fullscreen exit is recorded below the threshold and the re-entry is scheduled; the
  module is destroyed before the timer fires (as a submission on timeout does). The timer
  then clears the flag and requests nothing: the effects after it are those before it.
  The same happens, with no event in between, when the container has no method to request
  fullscreen.
\<close>

theorem reentry_not_attempted:
  "violations (snd (deliver (FullscreenChange False) 1000 sampleMonitor)) = 1
   \<and> violationThreshold (cfg (snd (deliver (FullscreenChange False) 1000 sampleMonitor))) = 3
   \<and> isReentering (snd (deliver (FullscreenChange False) 1000 sampleMonitor))
   \<and> effects (snd (deliver (FullscreenChange False) 1000 sampleMonitor))
       = [Alert (Warning FullscreenExit 1 2), ReentryScheduled 200]
   \<and> effects (run [(Destroy, 1100), (ReentryTimeout, 1200)]
        (snd (deliver (FullscreenChange False) 1000 sampleMonitor)))
       = [Alert (Warning FullscreenExit 1 2), ReentryScheduled 200]
   \<and> \<not> isReentering (run [(Destroy, 1100), (ReentryTimeout, 1200)]
        (snd (deliver (FullscreenChange False) 1000 sampleMonitor)))
   \<and> violations (snd (deliver (FullscreenChange False) 1000 plainContainer)) = 1
   \<and> effects (run [(Signal (FullscreenChange False), 1000), (ReentryTimeout, 1200)] plainContainer)
       = [Alert (Warning FullscreenExit 1 2), ReentryScheduled 200]
   \<and> \<not> isReentering
         (run [(Signal (FullscreenChange False), 1000), (ReentryTimeout, 1200)] plainContainer)"
  by (simp add: plainContainer_def monitor_defs)

text \<open>
  Claim C7, as the code has it. When a fullscreen exit is recorded below the threshold
  and the notification of the violation subscribers returns, the module sets
  \<open>isReentering\<close> and schedules the re-entry 200 ms later. When the timer fires, the
  module requests fullscreen if it is still active, not submitting, and the container
  offers a fullscreen request, and the flag is cleared when that request succeeds or
  fails; otherwise the timer clears the flag at once and requests nothing. While
  \<open>isReentering\<close> is set, a fullscreen-exit signal, from the listener or from
  \<^verbatim>\<open>triggerViolation\<close>, leaves the module as it is.
\<close>

theorem fullscreen_remediation:
  "(fst (logViolation FullscreenExit now m) = Returned
      \<and> violations (snd (logViolation FullscreenExit now m)) = violations m + 1
      \<and> violations (snd (logViolation FullscreenExit now m)) < violationThreshold (cfg m)
    \<longrightarrow> isReentering (snd (logViolation FullscreenExit now m))
        \<and> last (effects (snd (logViolation FullscreenExit now m))) = ReentryScheduled 200)
   \<and> (isActive k \<and> \<not> isSubmitting k \<and> containerHasRfs (cfg k)
    \<longrightarrow> reentryTimeout k = k\<lparr>effects := effects k @ [FullscreenRequested]\<rparr>)
   \<and> (\<not> (isActive d \<and> \<not> isSubmitting d \<and> containerHasRfs (cfg d))
    \<longrightarrow> reentryTimeout d = d\<lparr>isReentering := False\<rparr>)
   \<and> \<not> isReentering (requestSettled ok k)
   \<and> (isReentering r
    \<longrightarrow> deliver (FullscreenChange False) t r = (Returned, r)
        \<and> triggerViolation FullscreenExit t r = (Returned, r))"
proof -
  let ?m' = "snd (logViolation FullscreenExit now m)"
  have a: "isReentering ?m' \<and> last (effects ?m') = ReentryScheduled 200"
    if h: "fst (logViolation FullscreenExit now m) = Returned"
      "violations ?m' = violations m + 1" "violations ?m' < violationThreshold (cfg m)"
  proof -
    have rec: "recordable FullscreenExit now m"
      using h(2) logViolation_skip [of FullscreenExit now m] by fastforce
    then have v: "violations ?m' = violations m + 1" by (rule logViolation_record(1))
    let ?entry = "\<lparr>entry_type = FullscreenExit, timestamp = now\<rparr>"
    let ?m2 = "showWarning FullscreenExit (violations m + 1) (violationThreshold (cfg m))
                 (m\<lparr>lastViolationTime := now, violations := violations m + 1,
                    violationLog := violationLog m @ [?entry]\<rparr>)"
    let ?n = "forEachViolation 0 (onViolation m) ?entry (violations m + 1)
                (violationThreshold (cfg m)) (effects ?m2)"
    have "fst ?n = Returned"
      using logViolation_recordable(1) [OF rec] h(1) by (cases "fst ?n") simp_all
    then have "logViolation FullscreenExit now m
                 = (Returned, enforceFullscreen (?m2\<lparr>effects := snd ?n\<rparr>))"
      using logViolation_recordable(2) [OF rec] h(3) unfolding v by simp
    then show ?thesis
      using rec by (simp add: recordable_def enforceFullscreen_def)
  qed
  have b: "reentryTimeout k = k\<lparr>effects := effects k @ [FullscreenRequested]\<rparr>"
    if "isActive k \<and> \<not> isSubmitting k \<and> containerHasRfs (cfg k)"
    using that by (simp add: reentryTimeout_def)
  have c: "reentryTimeout d = d\<lparr>isReentering := False\<rparr>"
    if "\<not> (isActive d \<and> \<not> isSubmitting d \<and> containerHasRfs (cfg d))"
    using that by (auto simp: reentryTimeout_def)
  have s: "\<not> isReentering (requestSettled ok k)" by (simp add: requestSettled_def)
  have e: "deliver (FullscreenChange False) t r = (Returned, r)
           \<and> triggerViolation FullscreenExit t r = (Returned, r)" if "isReentering r"
    using that by (simp add: fullscreenChange_def triggerViolation_def logViolation_def)
  show ?thesis using a b c s e by blast
qed

theorem fullscreen_remediation_witness:
  "fst (logViolation FullscreenExit 1000 sampleMonitor) = Returned
   \<and> violations (snd (logViolation FullscreenExit 1000 sampleMonitor)) = violations sampleMonitor + 1
   \<and> violations (snd (logViolation FullscreenExit 1000 sampleMonitor))
       < violationThreshold (cfg sampleMonitor)
   \<and> isReentering (snd (logViolation FullscreenExit 1000 sampleMonitor))
   \<and> last (effects (snd (logViolation FullscreenExit 1000 sampleMonitor))) = ReentryScheduled 200
   \<and> isActive afterExit \<and> \<not> isSubmitting afterExit \<and> containerHasRfs (cfg afterExit)
   \<and> reentryTimeout afterExit = afterExit\<lparr>effects := effects afterExit @ [FullscreenRequested]\<rparr>
   \<and> \<not> (isActive (destroy afterExit) \<and> \<not> isSubmitting (destroy afterExit)
          \<and> containerHasRfs (cfg (destroy afterExit)))
   \<and> reentryTimeout (destroy afterExit) = (destroy afterExit)\<lparr>isReentering := False\<rparr>
   \<and> \<not> isReentering (requestSettled True afterExit)
   \<and> isReentering afterExit
   \<and> deliver (FullscreenChange False) 1100 afterExit = (Returned, afterExit)
   \<and> triggerViolation FullscreenExit 1100 afterExit = (Returned, afterExit)"
proof -
  have h1: "fst (logViolation FullscreenExit 1000 sampleMonitor) = Returned
     \<and> violations (snd (logViolation FullscreenExit 1000 sampleMonitor)) = violations sampleMonitor + 1
     \<and> violations (snd (logViolation FullscreenExit 1000 sampleMonitor))
         < violationThreshold (cfg sampleMonitor)"
    by (simp add: monitor_defs)
  have h2: "isActive afterExit \<and> \<not> isSubmitting afterExit \<and> containerHasRfs (cfg afterExit)"
    by (simp add: afterExit_def monitor_defs)
  have h3: "\<not> (isActive (destroy afterExit) \<and> \<not> isSubmitting (destroy afterExit)
          \<and> containerHasRfs (cfg (destroy afterExit)))"
    by (simp add: destroy_def)
  have h4: "isReentering afterExit"
    by (simp add: afterExit_def monitor_defs)
  show ?thesis
    using h1 h2 h3 h4
      fullscreen_remediation [where now = 1000 and m = sampleMonitor and k = afterExit
        and d = "destroy afterExit" and ok = True and r = afterExit and t = 1100]
    by blast
qed

section \<open>The format of submission ids\<close>

lemma digitChar_digit: "d < 10 \<Longrightarrow> digitChar d \<in> set ''0123456789''"
proof -
  assume "d < 10"
  then have "d \<in> {0,1,2,3,4,5,6,7,8,9}" by auto
  then show ?thesis by (auto simp: digitChar_def)
qed

lemma digitsOf_digits: "set (digitsOf n) \<subseteq> set ''0123456789''"
proof (induction n rule: digitsOf.induct)
  case (1 n)
  show ?case
  proof (cases "n < 10")
    case True
    then show ?thesis using digitChar_digit [of n] by (subst digitsOf.simps) simp
  next
    case False
    have "n mod 10 < 10" by simp
    then have "digitChar (n mod 10) \<in> set ''0123456789''" by (rule digitChar_digit)
    then show ?thesis using 1 False by (subst digitsOf.simps) simp
  qed
qed

lemma digitsOf_small: "n < 10 \<Longrightarrow> digitsOf n = [digitChar n]"
  by (subst digitsOf.simps) simp

lemma digitsOf_step: "10 \<le> n \<Longrightarrow> digitsOf n = digitsOf (n div 10) @ [digitChar (n mod 10)]"
  by (subst digitsOf.simps) simp

lemma length_digitsOf_2: "10 \<le> n \<Longrightarrow> n < 100 \<Longrightarrow> length (digitsOf n) = 2"
  by (simp add: digitsOf_step digitsOf_small)

lemma length_digitsOf_3: "100 \<le> n \<Longrightarrow> n < 1000 \<Longrightarrow> length (digitsOf n) = 3"
  by (simp add: digitsOf_step [of n] length_digitsOf_2)

lemma length_digitsOf_4: "1000 \<le> n \<Longrightarrow> n < 10000 \<Longrightarrow> length (digitsOf n) = 4"
  by (simp add: digitsOf_step [of n] length_digitsOf_3)

lemma toString_digits: "0 \<le> i \<Longrightarrow> set (toString i) \<subseteq> set ''0123456789''"
  using digitsOf_digits [of "nat i"] by (simp add: toString_def)

lemma pad2:
  assumes "0 \<le> v" "v < 100"
  shows "length (padStart 2 CHR ''0'' (toString v)) = 2"
    and "set (padStart 2 CHR ''0'' (toString v)) \<subseteq> set ''0123456789''"
proof -
  have d: "set (toString v) \<subseteq> set ''0123456789''" using assms toString_digits by simp
  show "length (padStart 2 CHR ''0'' (toString v)) = 2"
  proof (cases "v < 10")
    case True
    then show ?thesis using assms by (simp add: padStart_def toString_def digitsOf_small)
  next
    case False
    then have "length (digitsOf (nat v)) = 2" using assms by (intro length_digitsOf_2) auto
    then show ?thesis using assms by (simp add: padStart_def toString_def)
  qed
  show "set (padStart 2 CHR ''0'' (toString v)) \<subseteq> set ''0123456789''"
    using d by (auto simp: padStart_def)
qed

lemma charAt_chars:
  assumes "0 \<le> (r::rat)" "r < 1"
  shows "\<exists>c. charAt chars \<lfloor>r * of_nat (length chars)\<rfloor> = [c] \<and> c \<in> set chars"
proof -
  have len: "length chars = 36" by (simp add: chars_def)
  have "0 \<le> r * 36" using assms by simp
  then have lo: "0 \<le> \<lfloor>r * 36\<rfloor>" by simp
  have "r * 36 < 36" using assms by simp
  then have hi: "\<lfloor>r * 36\<rfloor> < 36" by (simp add: floor_less_iff)
  have "nat \<lfloor>r * 36\<rfloor> < 36" using lo hi by linarith
  then have "nat \<lfloor>r * 36\<rfloor> < length chars" by (simp only: len)
  then show ?thesis using lo len by (auto simp: charAt_def)
qed

lemma randomLoop_shape:
  "i \<le> 6 \<Longrightarrow> \<forall>k<6. 0 \<le> random k \<and> random k < 1 \<Longrightarrow>
   \<exists>suffix. randomLoop random i acc = acc @ suffix \<and> length suffix = 6 - i
            \<and> set suffix \<subseteq> set chars"
proof (induction random i acc rule: randomLoop.induct)
  case (1 random i randomPart)
  show ?case
  proof (cases "i < 6")
    case False
    then show ?thesis using 1(2) by (subst randomLoop.simps) simp
  next
    case True
    obtain c where c: "charAt chars \<lfloor>random i * of_nat (length chars)\<rfloor> = [c]" "c \<in> set chars"
      using charAt_chars [of "random i"] 1(3) True by blast
    have "\<exists>suffix. randomLoop random (Suc i) (randomPart @ [c]) = (randomPart @ [c]) @ suffix
             \<and> length suffix = 6 - Suc i \<and> set suffix \<subseteq> set chars"
      using 1(1) [OF True] True 1(3) c by simp
    then obtain suffix where s:
      "randomLoop random (Suc i) (randomPart @ [c]) = (randomPart @ [c]) @ suffix"
      "length suffix = 6 - Suc i" "set suffix \<subseteq> set chars" by blast
    have "randomLoop random i randomPart = randomPart @ (c # suffix)"
      using True c s by (subst randomLoop.simps) simp
    moreover have "length (c # suffix) = 6 - i" using s True by simp
    moreover have "set (c # suffix) \<subseteq> set chars" using s c by simp
    ultimately show ?thesis by blast
  qed
qed

lemma digitsOf_2: "n < 100 \<Longrightarrow> 10 \<le> n \<Longrightarrow> digitsOf n = [digitChar (n div 10), digitChar (n mod 10)]"
  by (simp add: digitsOf_step [of n] digitsOf_small)

lemma digitsOf_4:
  assumes "1000 \<le> n" "n < 10000"
  shows "digitsOf n = [digitChar (n div 1000), digitChar (n div 100 mod 10),
                       digitChar (n div 10 mod 10), digitChar (n mod 10)]"
proof -
  let ?h = "n div 10 div 10"
  have a: "digitsOf n = digitsOf (n div 10) @ [digitChar (n mod 10)]"
    using assms by (intro digitsOf_step) simp
  have b: "digitsOf (n div 10) = digitsOf ?h @ [digitChar (n div 10 mod 10)]"
    using assms by (intro digitsOf_step) simp
  have "?h < 100" "10 \<le> ?h" using assms by simp_all
  then have c: "digitsOf ?h = [digitChar (?h div 10), digitChar (?h mod 10)]"
    by (rule digitsOf_2)
  have d: "?h = n div 100" "?h div 10 = n div 1000" by simp_all
  have "digitsOf n = [digitChar (?h div 10), digitChar (?h mod 10),
                      digitChar (n div 10 mod 10), digitChar (n mod 10)]"
    by (simp only: a b c append.simps)
  then show ?thesis unfolding d(2) unfolding d(1) .
qed

lemma pad2_digits:
  assumes "0 \<le> v" "v < 100"
  shows "padStart 2 CHR ''0'' (toString v) = [digitChar (nat v div 10), digitChar (nat v mod 10)]"
proof (cases "v < 10")
  case True
  then have "nat v div 10 = 0" "nat v mod 10 = nat v" using assms by simp_all
  then show ?thesis using True assms
    by (simp add: padStart_def toString_def digitsOf_small digitChar_def)
next
  case False
  then have "digitsOf (nat v) = [digitChar (nat v div 10), digitChar (nat v mod 10)]"
    using assms by (intro digitsOf_2) simp_all
  then show ?thesis using assms by (simp add: padStart_def toString_def)
qed

lemma datePart_digits:
  assumes "1000 \<le> y" "y \<le> 9999" "0 \<le> mo" "mo \<le> 11" "1 \<le> d" "d \<le> 31"
  shows "toString y @ padStart 2 CHR ''0'' (toString (mo + 1)) @ padStart 2 CHR ''0'' (toString d)
       = map digitChar [nat y div 1000, nat y div 100 mod 10, nat y div 10 mod 10, nat y mod 10,
                        nat (mo + 1) div 10, nat (mo + 1) mod 10, nat d div 10, nat d mod 10]"
proof -
  have "toString y = [digitChar (nat y div 1000), digitChar (nat y div 100 mod 10),
                       digitChar (nat y div 10 mod 10), digitChar (nat y mod 10)]"
    using assms(1,2) digitsOf_4 [of "nat y"] by (simp add: toString_def)
  then show ?thesis
    using pad2_digits [of "mo + 1"] pad2_digits [of d] assms by simp
qed

text \<open>
  Claim C10. When the clock reads a date with a four-digit year (month reading 0 to 11, day
  1 to 31) and every draw of \<^verbatim>\<open>Math.random()\<close> lies in [0, 1), the id is \<open>SUB-\<close>, the
  eight decimal digits of the date as YYYYMMDD (the four digits of the year, the two of the
  month counted from 1, the two of the day), a hyphen, and six characters each taken from
  A to Z and 0 to 9: 19 characters in all.
\<close>

theorem generateSubmissionId_format:
  assumes "1000 \<le> getFullYear now" "getFullYear now \<le> 9999"
    and "0 \<le> getMonth now" "getMonth now \<le> 11"
    and "1 \<le> getDate now" "getDate now \<le> 31"
    and "\<forall>k<6. 0 \<le> random k \<and> random k < 1"
  shows "\<exists>datePart randomPart.
           generateSubmissionId now random = ''SUB-'' @ datePart @ ''-'' @ randomPart
         \<and> datePart = map digitChar
               [nat (getFullYear now) div 1000, nat (getFullYear now) div 100 mod 10,
                nat (getFullYear now) div 10 mod 10, nat (getFullYear now) mod 10,
                nat (getMonth now + 1) div 10, nat (getMonth now + 1) mod 10,
                nat (getDate now) div 10, nat (getDate now) mod 10]
         \<and> length datePart = 8 \<and> set datePart \<subseteq> set ''0123456789''
         \<and> length randomPart = 6
         \<and> set randomPart \<subseteq> set ''ABCDEFGHIJKLMNOPQRSTUVWXYZ0123456789''
         \<and> length (generateSubmissionId now random) = 19"
proof -
  obtain suffix where s: "randomLoop random 0 [] = suffix" "length suffix = 6"
    "set suffix \<subseteq> set chars"
    using randomLoop_shape [of 0 random "[]"] assms(7) by auto
  let ?y = "toString (getFullYear now)"
  let ?m = "padStart 2 CHR ''0'' (toString (getMonth now + 1))"
  let ?d = "padStart 2 CHR ''0'' (toString (getDate now))"
  have y: "length ?y = 4" "set ?y \<subseteq> set ''0123456789''"
    using assms(1,2) length_digitsOf_4 [of "nat (getFullYear now)"] toString_digits [of "getFullYear now"]
    by (simp_all add: toString_def)
  have m: "length ?m = 2" "set ?m \<subseteq> set ''0123456789''"
    using pad2 [of "getMonth now + 1"] assms(3,4) by simp_all
  have d: "length ?d = 2" "set ?d \<subseteq> set ''0123456789''"
    using pad2 [of "getDate now"] assms(5,6) by simp_all
  have g: "generateSubmissionId now random = ''SUB-'' @ (?y @ ?m @ ?d) @ ''-'' @ suffix"
    by (simp add: generateSubmissionId_def s(1))
  have "?y @ ?m @ ?d = map digitChar
               [nat (getFullYear now) div 1000, nat (getFullYear now) div 100 mod 10,
                nat (getFullYear now) div 10 mod 10, nat (getFullYear now) mod 10,
                nat (getMonth now + 1) div 10, nat (getMonth now + 1) mod 10,
                nat (getDate now) div 10, nat (getDate now) mod 10]"
    using assms(1-6) by (rule datePart_digits)
  moreover have "length (?y @ ?m @ ?d) = 8" using y m d by simp
  moreover have "set (?y @ ?m @ ?d) \<subseteq> set ''0123456789''" using y m d by simp
  moreover have "set suffix \<subseteq> set ''ABCDEFGHIJKLMNOPQRSTUVWXYZ0123456789''"
    using s(3) by (simp add: chars_def)
  moreover have "length (generateSubmissionId now random) = 19"
    unfolding g using y m d s(2) by simp
  ultimately show ?thesis using g s(2) by blast
qed

theorem generateSubmissionId_format_witness:
  "1000 \<le> getFullYear today \<and> getFullYear today \<le> 9999
   \<and> 0 \<le> getMonth today \<and> getMonth today \<le> 11 \<and> 1 \<le> getDate today \<and> getDate today \<le> 31
   \<and> 0 \<le> (1 / 2 :: rat) \<and> (1 / 2 :: rat) < 1
   \<and> length (generateSubmissionId today (\<lambda>k. 1 / 2)) = 19"
proof -
  have h: "1000 \<le> getFullYear today" "getFullYear today \<le> 9999"
    "0 \<le> getMonth today" "getMonth today \<le> 11" "1 \<le> getDate today" "getDate today \<le> 31"
    by (simp_all add: today_def)
  have r: "\<forall>k<6. 0 \<le> (\<lambda>k::nat. 1 / 2 :: rat) k \<and> (\<lambda>k::nat. 1 / 2 :: rat) k < 1" by simp
  have "length (generateSubmissionId today (\<lambda>k. 1 / 2)) = 19"
    using generateSubmissionId_format [OF h r] by blast
  then show ?thesis using h by simp
qed

section \<open>Delivery with retries\<close>

lemma attemptLoop_all_fail:
  assumes "\<forall>a. attempt \<le> a \<and> a \<le> maxRetries c \<longrightarrow> (\<exists>err. fetch a = Failed err)"
  shows "\<exists>rest. attemptLoop c fetch attempt lastError sent
           = (Inr (if attempt \<le> maxRetries c
                   then Some (case fetch (maxRetries c) of Failed err \<Rightarrow> err | NoError \<Rightarrow> None)
                   else lastError), sent @ rest)
         \<and> filter isFetch rest = map Fetch [attempt..maxRetries c]"
  using assms
proof (induction c fetch attempt lastError sent rule: attemptLoop.induct)
  case (1 c fetch attempt lastError sent)
  show ?case
  proof (cases "attempt \<le> maxRetries c")
    case False
    have "attemptLoop c fetch attempt lastError sent = (Inr lastError, sent)"
      using False by (subst attemptLoop.simps) simp
    then show ?thesis using False by simp
  next
    case True
    then obtain err where err: "fetch attempt = Failed err" using 1(2) by blast
    define sent' where "sent' = (if attempt < maxRetries c
                 then sent @ [Fetch attempt, Delay (retryDelay c)] else sent @ [Fetch attempt])"
    have step: "attemptLoop c fetch attempt lastError sent
                  = attemptLoop c fetch (attempt + 1) (Some err) sent'"
      using True err unfolding sent'_def by (subst attemptLoop.simps) simp
    have "\<exists>rest. attemptLoop c fetch (attempt + 1) (Some err) sent'
           = (Inr (if attempt + 1 \<le> maxRetries c
                   then Some (case fetch (maxRetries c) of Failed err \<Rightarrow> err | NoError \<Rightarrow> None)
                   else Some err), sent' @ rest)
         \<and> filter isFetch rest = map Fetch [attempt + 1..maxRetries c]"
      using 1(1) [OF True err] 1(2) unfolding sent'_def by simp
    then obtain rest where rest:
      "attemptLoop c fetch (attempt + 1) (Some err) sent'
           = (Inr (if attempt + 1 \<le> maxRetries c
                   then Some (case fetch (maxRetries c) of Failed err \<Rightarrow> err | NoError \<Rightarrow> None)
                   else Some err), sent' @ rest)"
      "filter isFetch rest = map Fetch [attempt + 1..maxRetries c]" by blast
    have up: "[attempt..maxRetries c] = attempt # [attempt + 1..maxRetries c]"
      using True by (simp add: upto_rec1)
    obtain pre where pre: "sent' = sent @ pre" "filter isFetch pre = [Fetch attempt]"
      unfolding sent'_def by (cases "attempt < maxRetries c") simp_all
    have res: "(if attempt + 1 \<le> maxRetries c
                then Some (case fetch (maxRetries c) of Failed err \<Rightarrow> err | NoError \<Rightarrow> None)
                else Some err)
             = Some (case fetch (maxRetries c) of Failed err \<Rightarrow> err | NoError \<Rightarrow> None)"
    proof (cases "attempt + 1 \<le> maxRetries c")
      case True
      then show ?thesis by simp
    next
      case False
      then have "attempt = maxRetries c" using \<open>attempt \<le> maxRetries c\<close> by simp
      then show ?thesis using err by simp
    qed
    have "attemptLoop c fetch attempt lastError sent
            = (Inr (Some (case fetch (maxRetries c) of Failed err \<Rightarrow> err | NoError \<Rightarrow> None)),
               sent @ (pre @ rest))"
      unfolding step rest(1) res by (simp add: pre(1))
    moreover have "filter isFetch (pre @ rest) = map Fetch [attempt..maxRetries c]"
      by (simp add: pre(2) rest(2) up)
    ultimately show ?thesis using True by auto
  qed
qed

text \<open>
  Claim C9. With a webhook configured and every attempt from 1 to \<open>maxRetries\<close>
  failing, \<^verbatim>\<open>submit\<close> sends exactly these requests and resolves with success false,
  the result's submission id and the message "Network error after N attempts:" followed
  by the last failure's message; the continuation in \<^verbatim>\<open>submitExam\<close> then stores the
  result under the key \<open>exam_result_\<close> followed by the submission id. For every
  configuration and every behaviour of the network \<^verbatim>\<open>submit\<close> resolves; it has no
  path that rejects.
\<close>

theorem exhausted_retries_fall_back:
  assumes "webhookUrl c \<noteq> []"
    and "\<forall>a. 1 \<le> a \<and> a \<le> maxRetries c \<longrightarrow> (\<exists>err. fetch a = Failed err)"
  shows "(\<exists>out.
            fst (submit c fetch now r) = Resolved out
          \<and> \<not> success out \<and> outcomeSubmissionId out = submissionId r
          \<and> error out = Some (''Network error after '' @ toString (maxRetries c)
                 @ '' attempts: ''
                 @ errorMessage (if 1 \<le> maxRetries c
                     then Some (case fetch (maxRetries c) of Failed err \<Rightarrow> err | NoError \<Rightarrow> None)
                     else None)))
       \<and> filter isFetch (snd (submit c fetch now r)) = map Fetch [1..maxRetries c]
       \<and> localStorage (deliverResult stringify c fetch now r p)
            (''exam_result_'' @ submissionId r) = Some (stringify r)
       \<and> (\<exists>out'. fst (submit c' fetch' now' r') = Resolved out')"
proof -
  obtain rest where rest:
    "attemptLoop c fetch 1 None []
       = (Inr (if 1 \<le> maxRetries c
               then Some (case fetch (maxRetries c) of Failed err \<Rightarrow> err | NoError \<Rightarrow> None)
               else None), [] @ rest)"
    "filter isFetch rest = map Fetch [1..maxRetries c]"
    using attemptLoop_all_fail [OF assms(2), of None "[]"] by blast
  have s: "submit c fetch now r =
     (Resolved \<lparr>success = False, outcomeSubmissionId = submissionId r, outcomeTimestamp = now,
                error = Some (''Network error after '' @ toString (maxRetries c) @ '' attempts: ''
                  @ errorMessage (if 1 \<le> maxRetries c
                      then Some (case fetch (maxRetries c) of Failed err \<Rightarrow> err | NoError \<Rightarrow> None)
                      else None))\<rparr>, rest)"
    using assms(1) by (simp add: submit_def rest(1))
  have 1: "\<exists>out.
            fst (submit c fetch now r) = Resolved out
          \<and> \<not> success out \<and> outcomeSubmissionId out = submissionId r
          \<and> error out = Some (''Network error after '' @ toString (maxRetries c)
                 @ '' attempts: ''
                 @ errorMessage (if 1 \<le> maxRetries c
                     then Some (case fetch (maxRetries c) of Failed err \<Rightarrow> err | NoError \<Rightarrow> None)
                     else None))"
    unfolding s by simp
  have 2: "filter isFetch (snd (submit c fetch now r)) = map Fetch [1..maxRetries c]"
    unfolding s by (simp add: rest(2))
  have 3: "localStorage (deliverResult stringify c fetch now r p)
            (''exam_result_'' @ submissionId r) = Some (stringify r)"
    unfolding deliverResult_def s by (simp add: onSubmitSettled_def)
  have 4: "\<exists>out'. fst (submit c' fetch' now' r') = Resolved out'"
    by (simp add: submit_def split: prod.splits sum.splits)
  show ?thesis using 1 2 3 4 by blast
qed

theorem exhausted_retries_fall_back_witness:
  "webhookUrl sampleConfig \<noteq> [] \<and> maxRetries sampleConfig = 3
   \<and> offline 1 = Failed (Some ''Failed to fetch'') \<and> offline 2 = Failed (Some ''Failed to fetch'')
   \<and> offline 3 = Failed (Some ''Failed to fetch'')
   \<and> filter isFetch (snd (submit sampleConfig offline 6000 sampleResult)) = [Fetch 1, Fetch 2, Fetch 3]
   \<and> localStorage (deliverResult (\<lambda>r. ''{}'') sampleConfig offline 6000 sampleResult samplePage)
        (''exam_result_'' @ submissionId sampleResult) = Some ''{}''"
proof -
  have h1: "webhookUrl sampleConfig \<noteq> []" by (simp add: sampleConfig_def)
  have h2: "\<forall>a. 1 \<le> a \<and> a \<le> maxRetries sampleConfig \<longrightarrow> (\<exists>err. offline a = Failed err)"
    by (simp add: offline_def)
  have u: "[1..maxRetries sampleConfig] = [1, 2, 3]"
    by (simp add: sampleConfig_def upto_rec1)
  show ?thesis
    using h1 exhausted_retries_fall_back [OF h1 h2, of 6000 sampleResult "\<lambda>r. ''{}''" samplePage]
    by (simp add: u) (simp add: offline_def sampleConfig_def)
qed

section \<open>Double-precision arithmetic\<close>

text \<open>
  The number of binary digits brackets its argument between two powers of two, so
  \<open>exponentOf\<close> is the binary exponent; rounding moves a value in the normal range by at
  most half a unit in the last place; the integers below \<open>2\<^sup>5\<^sup>3\<close> are doubles.
\<close>

lemma bitLength_0 [simp]: "bitLength 0 = 0"
  by (subst bitLength.simps) simp

lemma bitLength_pos: "0 < n \<Longrightarrow> bitLength n = Suc (bitLength (n div 2))"
  by (subst bitLength.simps) simp












lemma floor_rat_numeral: "\<lfloor>numeral a / numeral b :: rat\<rfloor> = numeral a div numeral b"
  using floor_divide_of_int_eq [of "numeral a" "numeral b", where ?'a = rat] by simp

lemma floor_rat_one_numeral: "\<lfloor>1 / numeral b :: rat\<rfloor> = 1 div numeral b"
  using floor_divide_of_int_eq [of 1 "numeral b", where ?'a = rat] by simp

lemmas double_eval =
  toNumber_def toDouble_def roundPositive_def exponentOf_def roundHalfEven_def Let_def
  bitLength_pos power_int_minus_divide floor_rat_numeral floor_rat_one_numeral




section \<open>Scoring\<close>

lemma gradeQuestion_outcome:
  "fst (gradeQuestion ans q t) =
     \<lparr>answeredQuestionId = questionId q, selectedOption = selectedOf ans q,
      isCorrect = (selectedOf ans q = Chosen (correctAnswer q)),
      marksAwarded = (if selectedOf ans q = Chosen (correctAnswer q) then marksOf q else 0)\<rparr>"
  by (simp add: gradeQuestion_def Let_def)

lemma gradeQuestion_tally:
  "totalObtainable (snd (gradeQuestion ans q t)) = totalObtainable t + marksOf q"
  "score (snd (gradeQuestion ans q t)) = score t + marksAwarded (fst (gradeQuestion ans q t))"
  "unansweredCount (snd (gradeQuestion ans q t)) =
     unansweredCount t + (if selectedOf ans q = NoSelection then 1 else 0)"
  by (auto simp: gradeQuestion_def Let_def)

lemma gradeAll_outcomes:
  "fst (gradeAll ans qs t) = map (\<lambda>q. fst (gradeQuestion ans q t0)) qs"
proof (induction qs arbitrary: t)
  case Nil
  show ?case by simp
next
  case (Cons q qs)
  obtain a t1 where g: "gradeQuestion ans q t = (a, t1)" by (cases "gradeQuestion ans q t")
  obtain as t2 where h: "gradeAll ans qs t1 = (as, t2)" by (cases "gradeAll ans qs t1")
  have "fst (gradeQuestion ans q t) = fst (gradeQuestion ans q t0)"
    by (simp only: gradeQuestion_outcome)
  then have a: "a = fst (gradeQuestion ans q t0)" using g by simp
  have as: "as = map (\<lambda>q. fst (gradeQuestion ans q t0)) qs"
    using Cons.IH [of t1] h by simp
  show ?case by (simp add: g h a as)
qed

lemma gradeAll_tally:
  "totalObtainable (snd (gradeAll ans qs t)) = totalObtainable t + sum_list (map marksOf qs)
   \<and> score (snd (gradeAll ans qs t))
       = score t + sum_list (map marksAwarded (fst (gradeAll ans qs t)))
   \<and> unansweredCount (snd (gradeAll ans qs t))
       = unansweredCount t
         + int (length (filter (\<lambda>out. selectedOption out = NoSelection)
                  (fst (gradeAll ans qs t))))"
proof (induction qs arbitrary: t)
  case Nil
  show ?case by simp
next
  case (Cons q qs)
  obtain a t1 where g: "gradeQuestion ans q t = (a, t1)" by (cases "gradeQuestion ans q t")
  obtain as t2 where h: "gradeAll ans qs t1 = (as, t2)" by (cases "gradeAll ans qs t1")
  have a: "a = fst (gradeQuestion ans q t)" and t1: "t1 = snd (gradeQuestion ans q t)"
    using g by simp_all
  show ?case
    using Cons.IH [of t1] gradeQuestion_tally [of ans q t]
    by (simp add: g h a [symmetric] t1 [symmetric] gradeQuestion_outcome [of ans q t, folded a])
qed

lemma scoreExam_fields:
  "fst (scoreExam e ans) = fst (gradeAll ans (questions e) startTally)"
  "totalMarks (snd (scoreExam e ans)) = totalObtainable (snd (gradeAll ans (questions e) startTally))"
  "obtainedMarks (snd (scoreExam e ans)) = score (snd (gradeAll ans (questions e) startTally))"
  "unansweredQuestions (snd (scoreExam e ans))
     = unansweredCount (snd (gradeAll ans (questions e) startTally))"
  by (simp_all add: scoreExam_def startTally_def Let_def split: prod.splits)

lemma scoreExam_outcomes:
  "fst (scoreExam e ans) = map (\<lambda>q. fst (gradeQuestion ans q startTally)) (questions e)"
  using gradeAll_outcomes [of ans "questions e" startTally startTally]
  by (simp add: scoreExam_fields)

lemma scoreExam_totals:
  "totalMarks (snd (scoreExam e ans)) = sum_list (map marksOf (questions e))"
  "obtainedMarks (snd (scoreExam e ans)) = sum_list (map marksAwarded (fst (scoreExam e ans)))"
  "unansweredQuestions (snd (scoreExam e ans))
     = int (length (filter (\<lambda>out. selectedOption out = NoSelection) (fst (scoreExam e ans))))"
  using gradeAll_tally [of ans "questions e" startTally]
  by (simp_all add: scoreExam_fields startTally_def)

lemma scoreExam_percentage:
  "percentage (snd (scoreExam e ans))
     = (if 0 < totalMarks (snd (scoreExam e ans))
        then numDiv
               (mathRound
                  (numMul (numDiv (toNumber (obtainedMarks (snd (scoreExam e ans))))
                             (toNumber (totalMarks (snd (scoreExam e ans)))))
                     (Finite 10000)))
               (Finite 100)
        else Finite 0)"
  by (simp add: scoreExam_def Let_def split: prod.splits)

lemma scoreExam_passed:
  "passed (snd (scoreExam e ans))
     = numGe (percentage (snd (scoreExam e ans)))
         (toNumber (case passMark e of None \<Rightarrow> 50 | Some v \<Rightarrow> if v = 0 then 50 else v))"
  by (simp add: scoreExam_def Let_def split: prod.splits)


text \<open>
  A question whose \<open>marks\<close> field is negative keeps it: with \<open>marks = -5\<close> and the
  right answer selected, the marks awarded and the total are \<open>-5\<close>, not 1.
\<close>

theorem negative_marks_kept:
  "marks (hd (questions negativeMarksExam)) = Some (- 5)
   \<and> isCorrect (hd (fst (scoreExam negativeMarksExam scenarioAnswers)))
   \<and> marksAwarded (hd (fst (scoreExam negativeMarksExam scenarioAnswers))) = - 5
   \<and> totalMarks (snd (scoreExam negativeMarksExam scenarioAnswers)) = - 5"
  by (simp add: scoring_defs)

text \<open>
  A question whose id is the name of a member of \<^verbatim>\<open>Object.prototype\<close> and that has no
  answer is not unanswered: the read of \<^verbatim>\<open>state.answers\<close> finds the inherited member,
  and the question is counted as attempted and wrong.
\<close>

lemma inherited_member_counted_wrong:
  "questionId (hd (questions constructorExam)) = ''constructor''
   \<and> selectedOption (hd (fst (scoreExam constructorExam Map.empty))) = Inherited ''constructor''
   \<and> \<not> isCorrect (hd (fst (scoreExam constructorExam Map.empty)))
   \<and> unansweredQuestions (snd (scoreExam constructorExam Map.empty)) = 0
   \<and> attemptedQuestions (snd (scoreExam constructorExam Map.empty)) = 1
   \<and> wrongAnswers (snd (scoreExam constructorExam Map.empty)) = 1"
  by (simp add: scoring_defs constructorExam_def)

text \<open>
  Claim C5, as the code has it. For every question of the exam the marks used are 1 when
  the \<open>marks\<close> field is unset or zero and the field's value otherwise (a negative value
  included); the outcome is correct exactly when the selected option is the correct
  answer, and the marks awarded are the marks used when it is correct and 0 otherwise. An
  answer that is present is the selected option, unless it is empty; an empty answer, and
  a missing answer to a question whose id is not the name of a member of
  \<^verbatim>\<open>Object.prototype\<close>, is a selected option of null; the questions with a selected
  option of null are the ones counted as unanswered, and none of this is an error. The
  total is the sum of the marks used and the obtained marks the sum of the marks awarded.
\<close>

theorem scoring_per_question:
  assumes "i < length (questions e)"
  shows "length (fst (scoreExam e ans)) = length (questions e)
       \<and> answeredQuestionId (fst (scoreExam e ans) ! i) = questionId (questions e ! i)
       \<and> (\<forall>s. ans (questionId (questions e ! i)) = Some s \<longrightarrow>
            selectedOption (fst (scoreExam e ans) ! i)
              = (if s = [] then NoSelection else Chosen s))
       \<and> (ans (questionId (questions e ! i)) = None
            \<and> questionId (questions e ! i) \<notin> set objectPrototypeMembers \<longrightarrow>
            selectedOption (fst (scoreExam e ans) ! i) = NoSelection)
       \<and> isCorrect (fst (scoreExam e ans) ! i)
           = (selectedOption (fst (scoreExam e ans) ! i) = Chosen (correctAnswer (questions e ! i)))
       \<and> marksAwarded (fst (scoreExam e ans) ! i)
           = (if isCorrect (fst (scoreExam e ans) ! i)
              then (case marks (questions e ! i) of
                      None \<Rightarrow> 1 | Some v \<Rightarrow> if v = 0 then 1 else v)
              else 0)
       \<and> totalMarks (snd (scoreExam e ans))
           = (\<Sum>q\<leftarrow>questions e. case marks q of None \<Rightarrow> 1 | Some v \<Rightarrow> if v = 0 then 1 else v)
       \<and> obtainedMarks (snd (scoreExam e ans))
           = (\<Sum>out\<leftarrow>fst (scoreExam e ans). marksAwarded out)
       \<and> unansweredQuestions (snd (scoreExam e ans))
           = int (length (filter (\<lambda>out. selectedOption out = NoSelection)
                    (fst (scoreExam e ans))))"
proof -
  have m: "marksOf = (\<lambda>q. case marks q of None \<Rightarrow> 1 | Some v \<Rightarrow> if v = 0 then 1 else v)"
    by (rule ext) (simp add: marksOf_def)
  note o = scoreExam_outcomes [of e ans]
  note t = scoreExam_totals [of e ans]
  have sel: "selectedOption (fst (scoreExam e ans) ! i) = selectedOf ans (questions e ! i)"
    using assms unfolding o by (simp add: gradeQuestion_outcome)
  have 1: "length (fst (scoreExam e ans)) = length (questions e)" unfolding o by simp
  have 2: "answeredQuestionId (fst (scoreExam e ans) ! i) = questionId (questions e ! i)"
    using assms unfolding o by (simp add: gradeQuestion_outcome)
  have 3: "\<forall>s. ans (questionId (questions e ! i)) = Some s \<longrightarrow>
            selectedOption (fst (scoreExam e ans) ! i)
              = (if s = [] then NoSelection else Chosen s)"
    unfolding sel by (simp add: selectedOf_def)
  have 4: "ans (questionId (questions e ! i)) = None
            \<and> questionId (questions e ! i) \<notin> set objectPrototypeMembers \<longrightarrow>
            selectedOption (fst (scoreExam e ans) ! i) = NoSelection"
    unfolding sel by (simp add: selectedOf_def)
  have 5: "isCorrect (fst (scoreExam e ans) ! i)
           = (selectedOption (fst (scoreExam e ans) ! i) = Chosen (correctAnswer (questions e ! i)))"
    using assms unfolding o by (simp add: gradeQuestion_outcome)
  have 6: "marksAwarded (fst (scoreExam e ans) ! i)
           = (if isCorrect (fst (scoreExam e ans) ! i)
              then (case marks (questions e ! i) of
                      None \<Rightarrow> 1 | Some v \<Rightarrow> if v = 0 then 1 else v)
              else 0)"
    using assms unfolding o by (simp add: gradeQuestion_outcome marksOf_def)
  have 7: "totalMarks (snd (scoreExam e ans))
           = (\<Sum>q\<leftarrow>questions e. case marks q of None \<Rightarrow> 1 | Some v \<Rightarrow> if v = 0 then 1 else v)"
    using t(1) unfolding m .
  show ?thesis using 1 2 3 4 5 6 7 t(2) t(3) by blast
qed

theorem scoring_per_question_witness:
  "(0::nat) < length (questions scenarioA)
   \<and> scenarioAnswers (questionId (questions scenarioA ! 0)) = Some ''B''
   \<and> Map.empty (questionId (questions scenarioA ! 0)) = (None :: string option)
   \<and> questionId (questions scenarioA ! 0) \<notin> set objectPrototypeMembers
   \<and> length (fst (scoreExam scenarioA scenarioAnswers)) = 2
   \<and> selectedOption (fst (scoreExam scenarioA scenarioAnswers) ! 0) = Chosen ''B''
   \<and> selectedOption (fst (scoreExam scenarioA Map.empty) ! 0) = NoSelection
   \<and> marksAwarded (fst (scoreExam scenarioA scenarioAnswers) ! 0) = 5
   \<and> totalMarks (snd (scoreExam scenarioA scenarioAnswers)) = 15"
proof -
  have h: "(0::nat) < length (questions scenarioA)" by (simp add: scenarioA_def)
  have q: "questions scenarioA = [q1, q2]" by (simp add: scenarioA_def)
  have a: "scenarioAnswers (questionId (questions scenarioA ! 0)) = Some ''B''"
    by (simp add: q q1_def scenarioAnswers_def)
  have n: "Map.empty (questionId (questions scenarioA ! 0)) = (None :: string option)" by simp
  have p: "questionId (questions scenarioA ! 0) \<notin> set objectPrototypeMembers"
    by (simp add: q q1_def objectPrototypeMembers_def)
  have c: "isCorrect (fst (scoreExam scenarioA scenarioAnswers) ! 0)"
    by (simp add: scoring_defs)
  have s1: "selectedOption (fst (scoreExam scenarioA scenarioAnswers) ! 0) = Chosen ''B''"
    using a scoring_per_question [OF h, of scenarioAnswers] by simp
  have s2: "selectedOption (fst (scoreExam scenarioA Map.empty) ! 0) = NoSelection"
    using n p scoring_per_question [OF h, of Map.empty] by blast
  have r: "length (fst (scoreExam scenarioA scenarioAnswers)) = 2
     \<and> marksAwarded (fst (scoreExam scenarioA scenarioAnswers) ! 0) = 5
     \<and> totalMarks (snd (scoreExam scenarioA scenarioAnswers)) = 15"
    using scoring_per_question [OF h, of scenarioAnswers] c
    by (simp add: q) (simp add: q1_def q2_def)
  show ?thesis using h a n p s1 s2 r by simp
qed


text \<open>
  The same at a pass mark: 11199 marks out of 20000 are \<open>55.995\<close> per cent, which rounds
  to \<open>56.00\<close> and reaches a pass mark of 56; the code computes \<open>55.99\<close> and fails the
  student.
\<close>

lemma halfway_fails_at_pass_mark:
  "obtainedMarks (snd (scoreExam borderlineExam scenarioAnswers)) = 11199
   \<and> totalMarks (snd (scoreExam borderlineExam scenarioAnswers)) = 20000
   \<and> \<lfloor>11199 / 20000 * 10000 + 1 / 2 :: rat\<rfloor> = 5600
   \<and> percentage (snd (scoreExam borderlineExam scenarioAnswers)) = toDouble (5599 / 100)
   \<and> \<not> passed (snd (scoreExam borderlineExam scenarioAnswers))"
proof -
  have o: "obtainedMarks (snd (scoreExam borderlineExam scenarioAnswers)) = 11199"
    and t: "totalMarks (snd (scoreExam borderlineExam scenarioAnswers)) = 20000"
    by (simp_all add: scoring_defs borderlineExam_def)
  have f: "\<lfloor>11199 / 20000 * 10000 + 1 / 2 :: rat\<rfloor> = 5600" by (simp add: floor_rat_numeral)
  have p: "percentage (snd (scoreExam borderlineExam scenarioAnswers)) = toDouble (5599 / 100)"
    unfolding scoreExam_percentage o t by (simp add: double_eval)
  have pm: "passMark borderlineExam = Some 56" by (simp add: borderlineExam_def scenarioA_def)
  have n: "\<not> passed (snd (scoreExam borderlineExam scenarioAnswers))"
    unfolding scoreExam_passed p pm by (simp add: double_eval)
  show ?thesis using o t f p n by simp
qed



section \<open>Submitting twice\<close>




section \<open>Resume detection\<close>

lemma truthy_getProp: "truthy (getProp x k) \<Longrightarrow> truthy x"
  by (cases "(x, k)" rule: getProp.cases) auto

lemma getProp_Some_truthy: "getProp x k = Some v \<Longrightarrow> truthy x"
  by (cases "(x, k)" rule: getProp.cases) auto

lemma isValidSession_iff:
  "isValidSession (Some payload) \<longleftrightarrow> hasExamId payload \<and> hasStudentName payload"
proof
  assume "isValidSession (Some payload)"
  then show "hasExamId payload \<and> hasStudentName payload"
    by (auto simp: isValidSession_def hasExamId_def hasStudentName_def
        split: option.splits json.splits)
next
  assume h: "hasExamId payload \<and> hasStudentName payload"
  then have a: "truthy (getProp (getProp (Some payload) ''exam'') ''examId'')"
    by (simp add: hasExamId_def)
  then have b: "truthy (getProp (Some payload) ''exam'')" by (rule truthy_getProp)
  then have c: "truthy (Some payload)" by (rule truthy_getProp)
  from h obtain s where s: "getProp (getProp (Some payload) ''student'') ''name'' = Some (JStr s)"
    "trim s \<noteq> []"
    by (auto simp: hasStudentName_def split: option.splits json.splits)
  then have d: "truthy (getProp (Some payload) ''student'')"
    using getProp_Some_truthy by blast
  show "isValidSession (Some payload)"
    using a b c d s by (simp add: isValidSession_def)
qed

lemma unparseable_snapshot_discarded:
  assumes "localStorage p STORAGE_KEY = Some saved" and "saved \<noteq> []"
    and "parse saved = None"
  shows "initResumeDetection parse alertPresent p = clearActiveState p"
  using assms by (simp add: initResumeDetection_def)

text \<open>
  Claim C8. When the stored snapshot parses to a payload that lacks an exam id or a
  student name that is not empty after trimming, \<^verbatim>\<open>initResumeDetection\<close> removes the
  snapshot from storage, does not offer the resume (so \<^verbatim>\<open>resumeExam\<close> cannot run on it)
  and leaves the session state as it is.
\<close>

theorem invalid_snapshot_discarded:
  assumes "localStorage p STORAGE_KEY = Some saved" and "saved \<noteq> []"
    and "parse saved = Some payload"
    and "\<not> (hasExamId payload \<and> hasStudentName payload)"
  shows "localStorage (initResumeDetection parse alertPresent p) STORAGE_KEY = None
       \<and> resumeAlert (initResumeDetection parse alertPresent p) = resumeAlert p
       \<and> state (initResumeDetection parse alertPresent p) = state p"
  using assms isValidSession_iff [of payload]
  by (simp add: initResumeDetection_def clearActiveState_def)

theorem invalid_snapshot_discarded_witness:
  "localStorage samplePage STORAGE_KEY = Some ''{}'' \<and> ''{}'' \<noteq> []
   \<and> hasExamId blankNamePayload \<and> \<not> hasStudentName blankNamePayload
   \<and> localStorage (initResumeDetection (\<lambda>raw. Some blankNamePayload) True samplePage) STORAGE_KEY
       = None
   \<and> resumeAlert (initResumeDetection (\<lambda>raw. Some blankNamePayload) True samplePage) = None"
proof -
  have h1: "localStorage samplePage STORAGE_KEY = Some ''{}''" by (simp add: samplePage_def)
  have h2: "''{}'' \<noteq> []" by simp
  have h3: "(\<lambda>raw. Some blankNamePayload) ''{}'' = Some blankNamePayload" by simp
  have e: "hasExamId blankNamePayload"
    by (simp add: hasExamId_def blankNamePayload_def)
  have n: "\<not> hasStudentName blankNamePayload"
    by (simp add: hasStudentName_def blankNamePayload_def trim_def isWhiteSpace_def)
  then have h4: "\<not> (hasExamId blankNamePayload \<and> hasStudentName blankNamePayload)" by simp
  have r: "resumeAlert samplePage = None" by (simp add: samplePage_def)
  show ?thesis
    using h1 h2 e n r invalid_snapshot_discarded [OF h1 h2 h3 h4, of True] by simp
qed

end
